theory Spec2Isabelle
  imports Complex_Main
begin

section \<open>Data model\<close>

text \<open>
  The values \<^verbatim>\<open>piexif.load\<close> stores under a tag: an integer, a byte sequence, a text,
  or a tuple (a rational is the tuple of its numerator and denominator, an array of
  rationals a tuple of such tuples). Python's integers are unbounded.
\<close>

type_synonym bytes = "nat list"

datatype pyval =
    VInt int
  | VBytes bytes
  | VStr string
  | VTuple "pyval list"

text \<open>The exceptions the functions of \<^verbatim>\<open>app.py\<close> can meet.\<close>

datatype pyerr =
    KeyError
  | IndexError
  | TypeError
  | AttributeError
  | ZeroDivisionError
  | OverflowError
  | UnicodeDecodeError
  | OSError

text \<open>
  A Python \<^verbatim>\<open>dict\<close> is an association list in insertion order: \<^verbatim>\<open>d.get(k)\<close> is
  \<open>map_of d k\<close>, \<^verbatim>\<open>d.items()\<close> is the list itself, \<^verbatim>\<open>d[k] = v\<close> is
  \<open>dict_set\<close> (the value is replaced where the key stands, a new key is appended).
\<close>

type_synonym ('k, 'v) pydict = "('k \<times> 'v) list"

fun dict_set :: "('k, 'v) pydict \<Rightarrow> 'k \<Rightarrow> 'v \<Rightarrow> ('k, 'v) pydict" where
  "dict_set [] k v = [(k, v)]"
| "dict_set ((k', v') # d) k v = (if k' = k then (k, v) # d else (k', v') # dict_set d k v)"

text \<open>
  The value of a top-level group of the metadata structure: a mapping from tag id to
  value for an IFD, a byte blob or \<^verbatim>\<open>None\<close> for the thumbnail.
\<close>

datatype group =
    GDict "(int, pyval) pydict"
  | GBytes bytes
  | GNone

type_synonym exif_dict = "(string, group) pydict"

text \<open>
  The metadata structure as the tag-parsing library produces it: the five IFD groups,
  where present, are mappings. Only the thumbnail entry is a byte blob or \<^verbatim>\<open>None\<close>.
\<close>

definition ifd_names :: "string list" where
  "ifd_names = [''0th'', ''Exif'', ''GPS'', ''Interop'', ''1st'']"

fun is_mapping :: "group \<Rightarrow> bool" where
  "is_mapping (GDict d) = True"
| "is_mapping (GBytes b) = False"
| "is_mapping GNone = False"

definition metadata_structure :: "exif_dict \<Rightarrow> bool" where
  "metadata_structure exif =
     list_all (\<lambda>(name, g). name \<in> set ifd_names \<longrightarrow> is_mapping g) exif"

text \<open>
  What a render pass writes to the page, in order. The texts are the ASCII part of the
  source's: the pictographs of its headings are left out and the multiplication sign
  of the dimensions line is written \<open>x\<close>.
\<close>

datatype event =
    Title string
  | Tabs "string list"
  | Markdown string
  | Subheader string
  | Write string
  | ShowImage
  | ShowMap
  | Info string
  | Warning pyerr

section \<open>Decimal rendering of integers\<close>

definition digit_char :: "nat \<Rightarrow> char" where
  "digit_char d = ''0123456789'' ! d"

fun show_nat :: "nat \<Rightarrow> string" where
  "show_nat n = (if n < 10 then [digit_char n] else show_nat (n div 10) @ [digit_char (n mod 10)])"

declare show_nat.simps [simp del]

definition show_int :: "int \<Rightarrow> string" where
  "show_int i = (if i < 0 then CHR ''-'' # show_nat (nat (- i)) else show_nat (nat i))"

section \<open>Metadata extractor: primary values\<close>

text \<open>
  The tag ids are the constants of \<^verbatim>\<open>piexif.ImageIFD\<close> (the TIFF tag numbers), in the
  order in which \<^verbatim>\<open>tag_map\<close> lists them.
\<close>

definition tag_map :: "(int, string) pydict" where
  "tag_map =
     [(271, ''Make''), (272, ''Model''), (274, ''Orientation''), (282, ''XResolution''),
      (283, ''YResolution''), (296, ''ResolutionUnit''), (305, ''Software'')]"

text \<open>
  \<^verbatim>\<open>exif_dict.get(name, {})\<close> followed by a method call on the result that only a
  mapping has (\<^verbatim>\<open>.get\<close>): on a byte blob or \<^verbatim>\<open>None\<close> the call raises AttributeError.
\<close>

definition get_ifd :: "exif_dict \<Rightarrow> string \<Rightarrow> group" where
  "get_ifd exif name = (case map_of exif name of None \<Rightarrow> GDict [] | Some g \<Rightarrow> g)"

text \<open>
  \<^verbatim>\<open>value.decode(errors="ignore")\<close> on a byte sequence never raises; the decoder of the
  interpreter is the parameter \<open>dec\<close>. A value that is not a byte sequence is kept as
  it is, and an absent tag gives \<^verbatim>\<open>None\<close>.
\<close>

fun decode_value :: "(bytes \<Rightarrow> string) \<Rightarrow> pyval \<Rightarrow> pyval" where
  "decode_value dec (VBytes b) = VStr (dec b)"
| "decode_value dec v = v"

fun primary_loop ::
  "(bytes \<Rightarrow> string) \<Rightarrow> (int, pyval) pydict \<Rightarrow> (int, string) pydict \<Rightarrow>
   (string, pyval option) pydict \<Rightarrow> (string, pyval option) pydict" where
  "primary_loop dec ifd [] primary_info = primary_info"
| "primary_loop dec ifd ((tag_id, label) # rest) primary_info =
     primary_loop dec ifd rest
       (dict_set primary_info label (map_option (decode_value dec) (map_of ifd tag_id)))"

definition get_primary_exif_values ::
  "(bytes \<Rightarrow> string) \<Rightarrow> exif_dict \<Rightarrow> pyerr + (string, pyval option) pydict" where
  "get_primary_exif_values dec exif =
     (case get_ifd exif ''0th'' of
        GDict ifd \<Rightarrow> Inr (primary_loop dec ifd tag_map [])
      | GBytes b \<Rightarrow> Inl AttributeError
      | GNone \<Rightarrow> Inl AttributeError)"

section \<open>Full metadata dump\<close>

text \<open>
  \<^verbatim>\<open>piexif.TAGS\<close> is the library's table: for a group name, a mapping from tag id to
  an entry whose \<^verbatim>\<open>"name"\<close> field is the tag's name. It is the parameter \<open>tags\<close>.
  \<open>py_str\<close> is the interpreter's \<^verbatim>\<open>str\<close> on the values that are not byte sequences.
\<close>

type_synonym tag_table = "string \<Rightarrow> (int \<Rightarrow> string option) option"

definition tag_name :: "tag_table \<Rightarrow> string \<Rightarrow> int \<Rightarrow> string" where
  "tag_name tags ifd_name tag =
     (case tags ifd_name of
        None \<Rightarrow> ''Tag '' @ show_int tag
      | Some tag_definitions \<Rightarrow>
          (case tag_definitions tag of
             None \<Rightarrow> ''Tag '' @ show_int tag
           | Some n \<Rightarrow> n))"

fun value_text :: "(bytes \<Rightarrow> string) \<Rightarrow> (pyval \<Rightarrow> string) \<Rightarrow> pyval \<Rightarrow> string" where
  "value_text dec py_str (VBytes b) = dec b"
| "value_text dec py_str v = py_str v"

definition tag_line ::
  "tag_table \<Rightarrow> (bytes \<Rightarrow> string) \<Rightarrow> (pyval \<Rightarrow> string) \<Rightarrow> string \<Rightarrow> int \<times> pyval \<Rightarrow> event" where
  "tag_line tags dec py_str ifd_name tv =
     Write (''**'' @ tag_name tags ifd_name (fst tv) @ '':** '' @ value_text dec py_str (snd tv))"

fun display_tags ::
  "tag_table \<Rightarrow> (bytes \<Rightarrow> string) \<Rightarrow> (pyval \<Rightarrow> string) \<Rightarrow> string \<Rightarrow>
   (int, pyval) pydict \<Rightarrow> event list" where
  "display_tags tags dec py_str ifd_name [] = []"
| "display_tags tags dec py_str ifd_name (tv # rest) =
     tag_line tags dec py_str ifd_name tv # display_tags tags dec py_str ifd_name rest"

fun display_all_exif ::
  "tag_table \<Rightarrow> (bytes \<Rightarrow> string) \<Rightarrow> (pyval \<Rightarrow> string) \<Rightarrow> exif_dict \<Rightarrow> event list" where
  "display_all_exif tags dec py_str [] = []"
| "display_all_exif tags dec py_str ((ifd_name, GDict []) # rest) =
     display_all_exif tags dec py_str rest"
| "display_all_exif tags dec py_str ((ifd_name, GDict (tv # tvs)) # rest) =
     Subheader (ifd_name @ '' EXIF'')
       # display_tags tags dec py_str ifd_name (tv # tvs)
       @ display_all_exif tags dec py_str rest"
| "display_all_exif tags dec py_str ((ifd_name, GBytes b) # rest) =
     display_all_exif tags dec py_str rest"
| "display_all_exif tags dec py_str ((ifd_name, GNone) # rest) =
     display_all_exif tags dec py_str rest"

section \<open>Floating-point numbers\<close>

text \<open>
  A Python \<^verbatim>\<open>float\<close> is an IEEE 754 binary64 number. A finite one is modelled by the
  rational it denotes; the sign of a zero is not represented: a negative zero and a
  positive one are the same value here, as they are equal for \<^verbatim>\<open>==\<close>. Every
  arithmetic operation of the interpreter returns the exact result rounded to the
  nearest binary64 number, ties to even.
\<close>

datatype pyfloat = Finite rat | PosInf | NegInf | NaN

definition round_half_even :: "rat \<Rightarrow> int" where
  "round_half_even x =
     (let f = \<lfloor>x\<rfloor>; r = x - of_int f
      in if r < 1 / 2 then f else if 1 / 2 < r then f + 1 else if even f then f else f + 1)"

definition pow2 :: "int \<Rightarrow> rat" where
  "pow2 e = (if 0 \<le> e then 2 ^ nat e else 1 / 2 ^ nat (- e))"

fun bit_length :: "nat \<Rightarrow> nat" where
  "bit_length n = (if n = 0 then 0 else Suc (bit_length (n div 2)))"

declare bit_length.simps [simp del]

text \<open>For \<open>0 < x\<close>, \<open>ilog2 x\<close> is the integer \<open>e\<close> with \<open>pow2 e \<le> x < pow2 (e + 1)\<close>.\<close>

definition ilog2 :: "rat \<Rightarrow> int" where
  "ilog2 x =
     (if 1 \<le> x then int (bit_length (nat \<lfloor>x\<rfloor>)) - 1
      else - int (bit_length (nat (\<lceil>1 / x\<rceil> - 1))))"

text \<open>
  The exponent of the last place of the binary64 numbers around \<open>x\<close>: 53 significant
  bits, and the exponent -1074 in the subnormal range.
\<close>

definition quantum :: "rat \<Rightarrow> int" where
  "quantum x = max (ilog2 \<bar>x\<bar> - 52) (- 1074)"

definition round_b64 :: "rat \<Rightarrow> rat" where
  "round_b64 x =
     (if x = 0 then 0
      else of_int (round_half_even (x / pow2 (quantum x))) * pow2 (quantum x))"

definition b64_max_bound :: rat where
  "b64_max_bound = 2 ^ 1024"

text \<open>The hardware operations overflow to an infinity.\<close>

definition ieee :: "rat \<Rightarrow> pyfloat" where
  "ieee x =
     (let r = round_b64 x
      in if b64_max_bound \<le> r then PosInf
         else if r \<le> - b64_max_bound then NegInf
         else Finite r)"

text \<open>
  The interpreter's own conversions raise OverflowError instead: \<^verbatim>\<open>int / int\<close>, the
  conversion of an \<^verbatim>\<open>int\<close> to a \<^verbatim>\<open>float\<close>, and the conversion of the decimal
  string inside \<^verbatim>\<open>round\<close>.
\<close>

definition checked :: "rat \<Rightarrow> pyerr + pyfloat" where
  "checked x =
     (let r = round_b64 x
      in if b64_max_bound \<le> \<bar>r\<bar> then Inl OverflowError else Inr (Finite r))"

definition int_truediv :: "int \<Rightarrow> int \<Rightarrow> pyerr + pyfloat" where
  "int_truediv a b =
     (if b = 0 then Inl ZeroDivisionError else checked (of_int a / of_int b))"

definition float_of_int :: "int \<Rightarrow> pyerr + pyfloat" where
  "float_of_int i = checked (of_int i)"

fun float_add :: "pyfloat \<Rightarrow> pyfloat \<Rightarrow> pyfloat" where
  "float_add (Finite a) (Finite b) = ieee (a + b)"
| "float_add NaN y = NaN"
| "float_add x NaN = NaN"
| "float_add PosInf NegInf = NaN"
| "float_add NegInf PosInf = NaN"
| "float_add PosInf y = PosInf"
| "float_add NegInf y = NegInf"
| "float_add x PosInf = PosInf"
| "float_add x NegInf = NegInf"

fun float_neg :: "pyfloat \<Rightarrow> pyfloat" where
  "float_neg (Finite a) = Finite (- a)"
| "float_neg PosInf = NegInf"
| "float_neg NegInf = PosInf"
| "float_neg NaN = NaN"

text \<open>\<^verbatim>\<open>x / y\<close> for two floats; a zero divisor raises ZeroDivisionError.\<close>

fun float_div :: "pyfloat \<Rightarrow> pyfloat \<Rightarrow> pyerr + pyfloat" where
  "float_div x (Finite b) =
     (if b = 0 then Inl ZeroDivisionError
      else Inr (case x of
                  Finite a \<Rightarrow> ieee (a / b)
                | PosInf \<Rightarrow> (if 0 < b then PosInf else NegInf)
                | NegInf \<Rightarrow> (if 0 < b then NegInf else PosInf)
                | NaN \<Rightarrow> NaN))"
| "float_div (Finite a) PosInf = Inr (Finite 0)"
| "float_div (Finite a) NegInf = Inr (Finite 0)"
| "float_div x y = Inr NaN"

text \<open>\<^verbatim>\<open>x / n\<close> for a float and an \<^verbatim>\<open>int\<close>: the \<^verbatim>\<open>int\<close> is converted first.\<close>

definition float_div_int :: "pyfloat \<Rightarrow> int \<Rightarrow> pyerr + pyfloat" where
  "float_div_int x n =
     (case float_of_int n of Inl e \<Rightarrow> Inl e | Inr y \<Rightarrow> float_div x y)"

text \<open>
  \<^verbatim>\<open>round(x, ndigits)\<close> for \<open>0 \<le> ndigits\<close>: the exact value of \<open>x\<close> is rounded to
  \<open>ndigits\<close> decimal places (ties to even), and the decimal is converted back to the
  nearest float. Infinities and NaN round to themselves.
\<close>

fun py_round :: "pyfloat \<Rightarrow> nat \<Rightarrow> pyerr + pyfloat" where
  "py_round (Finite a) ndigits =
     checked (of_int (round_half_even (a * 10 ^ ndigits)) / 10 ^ ndigits)"
| "py_round x ndigits = Inr x"

section \<open>Unit formatter\<close>

text \<open>The variable \<^verbatim>\<open>size\<close> holds an \<^verbatim>\<open>int\<close> until the first division, a float after.\<close>

datatype num = NInt int | NFloat pyfloat

fun num_gt :: "num \<Rightarrow> int \<Rightarrow> bool" where
  "num_gt (NInt i) p = (p < i)"
| "num_gt (NFloat (Finite a)) p = (of_int p < a)"
| "num_gt (NFloat PosInf) p = True"
| "num_gt (NFloat NegInf) p = False"
| "num_gt (NFloat NaN) p = False"

fun num_truediv :: "num \<Rightarrow> int \<Rightarrow> pyerr + num" where
  "num_truediv (NInt i) p = map_sum id NFloat (int_truediv i p)"
| "num_truediv (NFloat x) p = map_sum id NFloat (float_div_int x p)"

definition units :: "string list" where
  "units = [''Bytes'', ''KB'', ''MB'', ''GB'', ''TB'']"

definition power_c :: int where
  "power_c = 1024"

function format_loop :: "num \<Rightarrow> nat \<Rightarrow> pyerr + num \<times> nat" where
  "format_loop sz n =
     (if num_gt sz power_c \<and> n < length units - 1
      then (case num_truediv sz power_c of
              Inl e \<Rightarrow> Inl e
            | Inr sz' \<Rightarrow> format_loop sz' (n + 1))
      else Inr (sz, n))"
  by pat_completeness auto
termination
  by (relation "measure (\<lambda>(sz, n). length units - n)") (auto simp: units_def)

declare format_loop.simps [simp del]

text \<open>
  The format \<^verbatim>\<open>.2f\<close>: the exact value of the float rounded to two decimal places
  (ties to even), with a minus sign for a negative value. An \<^verbatim>\<open>int\<close> is converted
  to a float first.
\<close>

definition two_places :: "rat \<Rightarrow> string" where
  "two_places a =
     (let k = nat (round_half_even (\<bar>a\<bar> * 100))
      in (if a < 0 then ''-'' else []) @ show_nat (k div 100) @ ''.''
           @ [digit_char (k mod 100 div 10), digit_char (k mod 10)])"

fun float_2f :: "pyfloat \<Rightarrow> string" where
  "float_2f (Finite a) = two_places a"
| "float_2f PosInf = ''inf''"
| "float_2f NegInf = ''-inf''"
| "float_2f NaN = ''nan''"

fun format_2f :: "num \<Rightarrow> pyerr + string" where
  "format_2f (NInt i) = map_sum id float_2f (float_of_int i)"
| "format_2f (NFloat x) = Inr (float_2f x)"

definition list_index :: "'a list \<Rightarrow> nat \<Rightarrow> pyerr + 'a" where
  "list_index xs i = (if i < length xs then Inr (xs ! i) else Inl IndexError)"

definition format_bytes :: "int \<Rightarrow> pyerr + string" where
  "format_bytes sz =
     (case format_loop (NInt sz) 0 of
        Inl e \<Rightarrow> Inl e
      | Inr (sz', n) \<Rightarrow>
          (case format_2f sz' of
             Inl e \<Rightarrow> Inl e
           | Inr v \<Rightarrow>
               (case list_index units n of
                  Inl e \<Rightarrow> Inl e
                | Inr u \<Rightarrow> Inr (v @ '' '' @ u))))"

section \<open>GPS coordinate converter\<close>

text \<open>Exceptions propagate through a sequence of steps: the first one raised wins.\<close>

fun bind_err :: "pyerr + 'a \<Rightarrow> ('a \<Rightarrow> pyerr + 'b) \<Rightarrow> pyerr + 'b" where
  "bind_err (Inl e) f = Inl e"
| "bind_err (Inr x) f = f x"

text \<open>
  Subscripting \<^verbatim>\<open>v[i]\<close> with a non-negative literal index: a tuple gives its element,
  a byte sequence the byte as an \<^verbatim>\<open>int\<close>, a text its character; an \<^verbatim>\<open>int\<close> is not
  subscriptable.
\<close>

fun py_getitem :: "pyval \<Rightarrow> nat \<Rightarrow> pyerr + pyval" where
  "py_getitem (VTuple xs) i = (if i < length xs then Inr (xs ! i) else Inl IndexError)"
| "py_getitem (VBytes b) i = (if i < length b then Inr (VInt (int (b ! i))) else Inl IndexError)"
| "py_getitem (VStr s) i = (if i < length s then Inr (VStr [s ! i]) else Inl IndexError)"
| "py_getitem (VInt n) i = Inl TypeError"

text \<open>The operator \<^verbatim>\<open>/\<close> is defined between numbers only.\<close>

fun py_truediv :: "pyval \<Rightarrow> pyval \<Rightarrow> pyerr + pyfloat" where
  "py_truediv (VInt a) (VInt b) = int_truediv a b"
| "py_truediv x y = Inl TypeError"

text \<open>\<^verbatim>\<open>dms[i][0] / dms[i][1]\<close>, evaluated left to right.\<close>

definition dms_component :: "pyval \<Rightarrow> nat \<Rightarrow> pyerr + pyfloat" where
  "dms_component dms i =
     bind_err (py_getitem dms i) (\<lambda>t0.
     bind_err (py_getitem t0 0) (\<lambda>numerator.
     bind_err (py_getitem dms i) (\<lambda>t1.
     bind_err (py_getitem t1 1) (\<lambda>denominator.
     py_truediv numerator denominator))))"

text \<open>The body of the \<^verbatim>\<open>try\<close> block.\<close>

definition dms_body :: "pyval \<Rightarrow> string \<Rightarrow> pyerr + pyfloat" where
  "dms_body dms ref =
     bind_err (dms_component dms 0) (\<lambda>degrees.
     bind_err (dms_component dms 1) (\<lambda>minutes.
     bind_err (dms_component dms 2) (\<lambda>seconds.
     bind_err (float_div_int minutes 60) (\<lambda>m60.
     bind_err (float_div_int seconds 3600) (\<lambda>s3600.
     (let decimal = float_add (float_add degrees m60) s3600;
          decimal = (if ref \<in> set [''S'', ''W''] then float_neg decimal else decimal)
      in py_round decimal 8))))))"

text \<open>
  Every exception of the body is caught: the function shows a warning and returns
  \<^verbatim>\<open>None\<close>. The result is the returned value and the events written to the page.
\<close>

definition get_decimal_from_dms :: "pyval \<Rightarrow> string \<Rightarrow> pyfloat option \<times> event list" where
  "get_decimal_from_dms dms ref =
     (case dms_body dms ref of
        Inl e \<Rightarrow> (None, [Warning e])
      | Inr decimal \<Rightarrow> (Some decimal, []))"

section \<open>Metadata extractor: GPS values\<close>

text \<open>The tag ids of \<^verbatim>\<open>piexif.GPSIFD\<close>.\<close>

definition GPSLatitudeRef :: int where "GPSLatitudeRef = 1"
definition GPSLatitude :: int where "GPSLatitude = 2"
definition GPSLongitudeRef :: int where "GPSLongitudeRef = 3"
definition GPSLongitude :: int where "GPSLongitude = 4"

text \<open>
  \<^verbatim>\<open>gps[tag]\<close>: a missing key of a mapping raises KeyError; a byte blob is indexed by
  position; \<^verbatim>\<open>None\<close> is not subscriptable.
\<close>

fun group_getitem :: "group \<Rightarrow> int \<Rightarrow> pyerr + pyval" where
  "group_getitem (GDict d) tag = (case map_of d tag of None \<Rightarrow> Inl KeyError | Some v \<Rightarrow> Inr v)"
| "group_getitem (GBytes b) tag =
     (if nat tag < length b then Inr (VInt (int (b ! nat tag))) else Inl IndexError)"
| "group_getitem GNone tag = Inl TypeError"

text \<open>
  \<^verbatim>\<open>value.decode()\<close>: only a byte sequence has the method; the strict decoder of the
  interpreter is the parameter \<open>decs\<close>, which gives \<open>None\<close> where the bytes are not
  valid UTF-8.
\<close>

fun py_decode :: "(bytes \<Rightarrow> string option) \<Rightarrow> pyval \<Rightarrow> pyerr + string" where
  "py_decode decs (VBytes b) = (case decs b of None \<Rightarrow> Inl UnicodeDecodeError | Some s \<Rightarrow> Inr s)"
| "py_decode decs v = Inl AttributeError"

text \<open>
  The body of the \<^verbatim>\<open>try\<close> block: the value of a coordinate is looked up before its
  reference, the latitude is converted before the longitude is looked up. The events
  are the warnings of the conversions done before an exception, if any.
\<close>

definition gps_body ::
  "(bytes \<Rightarrow> string option) \<Rightarrow> group \<Rightarrow>
   (pyerr + pyfloat option \<times> pyfloat option) \<times> event list" where
  "gps_body decs gps =
     (case bind_err (group_getitem gps GPSLatitude) (\<lambda>dms.
           bind_err (group_getitem gps GPSLatitudeRef) (\<lambda>r.
           bind_err (py_decode decs r) (\<lambda>ref. Inr (get_decimal_from_dms dms ref)))) of
        Inl e \<Rightarrow> (Inl e, [])
      | Inr (lat, w1) \<Rightarrow>
          (case bind_err (group_getitem gps GPSLongitude) (\<lambda>dms.
                bind_err (group_getitem gps GPSLongitudeRef) (\<lambda>r.
                bind_err (py_decode decs r) (\<lambda>ref. Inr (get_decimal_from_dms dms ref)))) of
             Inl e \<Rightarrow> (Inl e, w1)
           | Inr (lon, w2) \<Rightarrow> (Inr (lat, lon), w1 @ w2)))"

text \<open>Only KeyError is caught; any other exception leaves the function.\<close>

definition extract_gps_coords ::
  "(bytes \<Rightarrow> string option) \<Rightarrow> exif_dict \<Rightarrow>
   (pyerr + pyfloat option \<times> pyfloat option) \<times> event list" where
  "extract_gps_coords decs exif =
     (case gps_body decs (get_ifd exif ''GPS'') of
        (Inl e, w) \<Rightarrow> (if e = KeyError then (Inr (None, None), w) else (Inl e, w))
      | (Inr latlon, w) \<Rightarrow> (Inr latlon, w))"

section \<open>Presentation layer\<close>

text \<open>
  The collaborators of a render pass are parameters: the image decoder
  (\<^verbatim>\<open>Image.open\<close>, which may raise), the metadata parser (\<^verbatim>\<open>piexif.load\<close>, which may
  raise), the library's tag-name table, the decoders of the interpreter, its rendering
  of values and floats as text, and the formatted modification time of the temporary
  file.
\<close>

record image =
  img_format :: string
  img_width :: nat
  img_height :: nat
  img_mode :: string
  img_exif :: "bytes option"

record env =
  env_image_open :: "bytes \<Rightarrow> pyerr + image"
  env_piexif_load :: "bytes \<Rightarrow> pyerr + exif_dict"
  env_tags :: tag_table
  env_dec :: "bytes \<Rightarrow> string"
  env_decs :: "bytes \<Rightarrow> string option"
  env_py_str :: "pyval \<Rightarrow> string"
  env_float_str :: "pyfloat \<Rightarrow> string"
  env_mtime :: string

record upload =
  up_name :: string
  up_content :: bytes

text \<open>
  The state a render pass leaves: the files on disk, the page, and the exception that
  ended the pass, if one did.
\<close>

record outcome =
  files :: "string \<Rightarrow> bytes option"
  page :: "event list"
  raised :: "pyerr option"

definition temp_path :: string where
  "temp_path = ''temp_image.jpg''"

text \<open>The loop over \<^verbatim>\<open>primary.items()\<close>: a missing value is not displayed.\<close>

fun display_primary :: "(pyval \<Rightarrow> string) \<Rightarrow> (string, pyval option) pydict \<Rightarrow> event list" where
  "display_primary py_str [] = []"
| "display_primary py_str ((label, None) # rest) = display_primary py_str rest"
| "display_primary py_str ((label, Some v) # rest) =
     Write (''**'' @ label @ '':** '' @ py_str v) # display_primary py_str rest"

text \<open>The truth value of a group, as \<^verbatim>\<open>any\<close> tests it.\<close>

fun group_truthy :: "group \<Rightarrow> bool" where
  "group_truthy (GDict d) = (d \<noteq> [])"
| "group_truthy (GBytes b) = (b \<noteq> [])"
| "group_truthy GNone = False"

text \<open>
  The first tab. The result is the events written and the exception that interrupted
  the tab, if one did: the size formatter, the primary-value extraction and the GPS
  extraction can raise, and nothing in the tab catches what they raise.
\<close>

definition gps_section :: "env \<Rightarrow> exif_dict \<Rightarrow> event list \<times> pyerr option" where
  "gps_section env exif =
     (case extract_gps_coords (env_decs env) exif of
        (Inl e, w) \<Rightarrow> (Markdown ''### GPS Map'' # w, Some e)
      | (Inr (Some lat, Some lon), w) \<Rightarrow>
          (Markdown ''### GPS Map'' # w
             @ [Write (''**Latitude:** '' @ env_float_str env lat),
                Write (''**Longitude:** '' @ env_float_str env lon),
                ShowMap], None)
      | (Inr (lat, lon), w) \<Rightarrow>
          (Markdown ''### GPS Map'' # w @ [Info ''No GPS data found in this image.''], None))"

definition camera_section :: "env \<Rightarrow> exif_dict \<Rightarrow> event list \<times> pyerr option" where
  "camera_section env exif =
     (case get_primary_exif_values (env_dec env) exif of
        Inl e \<Rightarrow> ([Markdown ''### Camera Info''], Some e)
      | Inr primary \<Rightarrow>
          (case gps_section env exif of
             (evs, r) \<Rightarrow>
               (Markdown ''### Camera Info'' # display_primary (env_py_str env) primary @ evs, r)))"

definition summary_tab ::
  "env \<Rightarrow> upload \<Rightarrow> image \<Rightarrow> exif_dict \<Rightarrow> event list \<times> pyerr option" where
  "summary_tab env up img exif =
     (case format_bytes (int (length (up_content up))) of
        Inl e \<Rightarrow>
          ([ShowImage, Markdown ''### Basic Info'', Write (''**File Name:** '' @ up_name up)],
           Some e)
      | Inr sz \<Rightarrow>
          (case camera_section env exif of
             (evs, r) \<Rightarrow>
               ([ShowImage, Markdown ''### Basic Info'',
                 Write (''**File Name:** '' @ up_name up),
                 Write (''**Size:** '' @ sz),
                 Write (''**Modified:** '' @ env_mtime env),
                 Write (''**Format:** '' @ img_format img),
                 Write (''**Dimensions:** '' @ show_nat (img_width img) @ '' x ''
                          @ show_nat (img_height img)),
                 Write (''**Mode:** '' @ img_mode img)] @ evs, r)))"

text \<open>The second tab cannot raise.\<close>

definition detail_tab :: "env \<Rightarrow> exif_dict \<Rightarrow> event list" where
  "detail_tab env exif =
     Markdown ''### Full EXIF Metadata''
       # (if list_ex group_truthy (map snd exif)
          then display_all_exif (env_tags env) (env_dec env) (env_py_str env) exif
          else [Write ''No EXIF data found.''])"

text \<open>
  \<^verbatim>\<open>main\<close>: without an upload only the title is shown. With one, the content is written
  to the temporary path, the image is decoded from it, its metadata payload (empty if
  absent) is parsed, the two tabs are rendered, and the call that removes the
  temporary file is the last statement of the branch. An exception ends the pass where
  it is raised.
\<close>

definition main :: "env \<Rightarrow> upload option \<Rightarrow> (string \<Rightarrow> bytes option) \<Rightarrow> outcome" where
  "main env uploaded_file fs =
     (case uploaded_file of
        None \<Rightarrow> \<lparr>files = fs, page = [Title ''Image Info & GPS Mapper''], raised = None\<rparr>
      | Some up \<Rightarrow>
          (let fs1 = fs(temp_path \<mapsto> up_content up);
               page0 = [Title ''Image Info & GPS Mapper'']
           in case env_image_open env (up_content up) of
                Inl e \<Rightarrow> \<lparr>files = fs1, page = page0, raised = Some e\<rparr>
              | Inr img \<Rightarrow>
                  (case env_piexif_load env (case img_exif img of None \<Rightarrow> [] | Some b \<Rightarrow> b) of
                     Inl e \<Rightarrow> \<lparr>files = fs1, page = page0, raised = Some e\<rparr>
                   | Inr exif \<Rightarrow>
                       (case summary_tab env up img exif of
                          (evs, Some e) \<Rightarrow>
                            \<lparr>files = fs1,
                             page = page0 @ [Tabs [''Summary'', ''More Metadata'']] @ evs,
                             raised = Some e\<rparr>
                        | (evs, None) \<Rightarrow>
                            \<lparr>files = fs1(temp_path := None),
                             page = page0 @ [Tabs [''Summary'', ''More Metadata'']] @ evs
                                      @ detail_tab env exif,
                             raised = None\<rparr>))))"

text \<open>The value stored under a tag of a named group, where the group is a mapping.\<close>

definition ifd_lookup :: "exif_dict \<Rightarrow> string \<Rightarrow> int \<Rightarrow> pyval option" where
  "ifd_lookup exif name tag =
     (case get_ifd exif name of GDict d \<Rightarrow> map_of d tag | GBytes b \<Rightarrow> None | GNone \<Rightarrow> None)"

text \<open>
  The four tags \<open>extract_gps_coords\<close> looks up, and the values on which
  \<^verbatim>\<open>.decode()\<close> returns: the byte sequences that the strict decoder accepts.
\<close>

definition gps_tag_ids :: "int list" where
  "gps_tag_ids = [GPSLatitude, GPSLatitudeRef, GPSLongitude, GPSLongitudeRef]"

definition decodable :: "(bytes \<Rightarrow> string option) \<Rightarrow> pyval \<Rightarrow> bool" where
  "decodable decs v = (case v of VBytes b \<Rightarrow> decs b \<noteq> None | _ \<Rightarrow> False)"

text \<open>
  The unit index as claim C4 words it, to be compared with what \<open>format_bytes\<close>
  does: the largest \<open>k\<close> of the ladder for which the scaled value
  \<open>b / 1024\<^sup>k\<close> is at most 1024, and 4 (the TB ceiling) when there is none.
\<close>

definition largest_unit_index :: "int \<Rightarrow> nat" where
  "largest_unit_index b =
     (case find (\<lambda>k. of_int b / 1024 ^ k \<le> (1024 :: rat)) [4, 3, 2, 1, 0] of
        None \<Rightarrow> 4
      | Some k \<Rightarrow> k)"

text \<open>A DMS triple of integer pairs, as the tag-parsing library stores it.\<close>

definition dms_triple :: "int \<Rightarrow> int \<Rightarrow> int \<Rightarrow> int \<Rightarrow> int \<Rightarrow> int \<Rightarrow> pyval" where
  "dms_triple a b c d e f =
     VTuple [VTuple [VInt a, VInt b], VTuple [VInt c, VInt d], VTuple [VInt e, VInt f]]"

text \<open>
  The value the claims compare the result with: degrees + minutes/60 + seconds/3600,
  each component being numerator/denominator, as an exact rational.
\<close>

definition dms_exact :: "int \<Rightarrow> int \<Rightarrow> int \<Rightarrow> int \<Rightarrow> int \<Rightarrow> int \<Rightarrow> rat" where
  "dms_exact a b c d e f =
     of_int a / of_int b + of_int c / of_int d / 60 + of_int e / of_int f / 3600"

section \<open>Properties\<close>

subsection \<open>Primary values\<close>

lemma dict_set_append: "k \<notin> fst ` set d \<Longrightarrow> dict_set d k v = d @ [(k, v)]"
  by (induction d) auto

lemma primary_loop_append:
  "distinct (map snd tm) \<Longrightarrow> snd ` set tm \<inter> fst ` set acc = {} \<Longrightarrow>
   primary_loop dec ifd tm acc =
     acc @ map (\<lambda>(t, l). (l, map_option (decode_value dec) (map_of ifd t))) tm"
proof (induction tm arbitrary: acc)
  case Nil
  then show ?case by simp
next
  case (Cons p tm)
  obtain t l where p: "p = (t, l)" by (cases p)
  from Cons.prems have fresh: "l \<notin> fst ` set acc" and d: "distinct (map snd tm)"
    and l: "l \<notin> snd ` set tm" and rest: "snd ` set tm \<inter> fst ` set acc = {}"
    by (auto simp: p)
  have "snd ` set tm \<inter> fst ` set (acc @ [(l, map_option (decode_value dec) (map_of ifd t))]) = {}"
    using l rest by auto
  with Cons.IH [OF d] fresh show ?case
    by (simp add: p dict_set_append)
qed

lemma metadata_structure_ifd:
  assumes ms: "metadata_structure exif" and n: "name \<in> set ifd_names"
  shows "\<exists>d. get_ifd exif name = GDict d"
proof (cases "map_of exif name")
  case None
  then show ?thesis by (simp add: get_ifd_def)
next
  case (Some g)
  then have "(name, g) \<in> set exif" by (rule map_of_SomeD)
  with ms n have "is_mapping g"
    by (auto simp: metadata_structure_def list_all_iff)
  then show ?thesis using Some by (cases g) (simp_all add: get_ifd_def)
qed

lemma get_primary_exif_values_eq:
  assumes "metadata_structure exif"
  shows "get_primary_exif_values dec exif =
           Inr (map (\<lambda>(t, l). (l, map_option (decode_value dec) (ifd_lookup exif ''0th'' t))) tag_map)"
proof -
  obtain d where d: "get_ifd exif ''0th'' = GDict d"
    using metadata_structure_ifd [OF assms, of "''0th''"] by (auto simp: ifd_names_def)
  have "primary_loop dec d tag_map [] =
          [] @ map (\<lambda>(t, l). (l, map_option (decode_value dec) (map_of d t))) tag_map"
    by (rule primary_loop_append) (simp_all add: tag_map_def)
  then show ?thesis
    by (simp add: get_primary_exif_values_def d ifd_lookup_def)
qed

text \<open>
  Claim C3, as the code has it. For every metadata structure whose primary group holds
  none of the seven camera tags, \<open>get_primary_exif_values\<close> does not raise and returns
  the record in which each of the seven labels maps to the missing value: an absent tag
  is in the record, with \<^verbatim>\<open>None\<close>.
\<close>

theorem primary_values_all_missing:
  assumes "metadata_structure exif"
    and "\<forall>(t, l) \<in> set tag_map. ifd_lookup exif ''0th'' t = None"
  shows "get_primary_exif_values dec exif =
           Inr [(''Make'', None), (''Model'', None), (''Orientation'', None),
                (''XResolution'', None), (''YResolution'', None),
                (''ResolutionUnit'', None), (''Software'', None)]"
  using assms(2) unfolding get_primary_exif_values_eq [OF assms(1)]
  by (simp add: tag_map_def)

theorem primary_values_all_missing_witness:
  "metadata_structure [(''0th'', GDict [(256, VInt 640)]), (''thumbnail'', GBytes [255, 216])]
   \<and> get_primary_exif_values (\<lambda>b. [])
        [(''0th'', GDict [(256, VInt 640)]), (''thumbnail'', GBytes [255, 216])] =
           Inr [(''Make'', None), (''Model'', None), (''Orientation'', None),
                (''XResolution'', None), (''YResolution'', None),
                (''ResolutionUnit'', None), (''Software'', None)]"
proof -
  let ?exif = "[(''0th'', GDict [(256, VInt 640)]), (''thumbnail'', GBytes [255, 216])]"
  have ms: "metadata_structure ?exif"
    by (simp add: metadata_structure_def ifd_names_def)
  have absent: "\<forall>(t, l) \<in> set tag_map. ifd_lookup ?exif ''0th'' t = None"
    by (simp add: tag_map_def ifd_lookup_def get_ifd_def)
  from primary_values_all_missing [OF ms absent, of "\<lambda>b. []"] ms absent
  show ?thesis by blast
qed

text \<open>
  Claim C3 as stated fails: on the metadata structure with an empty primary group the
  record returned is not empty.
\<close>

theorem primary_values_not_empty_counterexample:
  "metadata_structure [(''0th'', GDict [])]
   \<and> get_primary_exif_values (\<lambda>b. []) [(''0th'', GDict [])] =
        Inr [(''Make'', None), (''Model'', None), (''Orientation'', None),
             (''XResolution'', None), (''YResolution'', None),
             (''ResolutionUnit'', None), (''Software'', None)]
   \<and> get_primary_exif_values (\<lambda>b. []) [(''0th'', GDict [])] \<noteq> Inr []"
  by (simp add: metadata_structure_def ifd_names_def get_primary_exif_values_def get_ifd_def
      tag_map_def)

text \<open>
  Claim C9. For every metadata structure the record returned by
  \<open>get_primary_exif_values\<close> has exactly the seven keys Make, Model, Orientation,
  XResolution, YResolution, ResolutionUnit, Software, in this order; each holds the
  (decoded) value of its tag, and the missing value \<^verbatim>\<open>None\<close> where the tag is absent
  from the source.
\<close>

theorem primary_record_has_seven_keys:
  assumes "metadata_structure exif"
  shows "\<exists>primary. get_primary_exif_values dec exif = Inr primary
           \<and> map fst primary =
               [''Make'', ''Model'', ''Orientation'', ''XResolution'', ''YResolution'',
                ''ResolutionUnit'', ''Software'']
           \<and> (\<forall>(t, l) \<in> set tag_map.
                 map_of primary l = Some (map_option (decode_value dec) (ifd_lookup exif ''0th'' t)))
           \<and> (\<forall>(t, l) \<in> set tag_map.
                 ifd_lookup exif ''0th'' t = None \<longrightarrow> map_of primary l = Some None)"
  unfolding get_primary_exif_values_eq [OF assms]
  by (simp add: tag_map_def)

theorem primary_record_has_seven_keys_witness:
  "metadata_structure [(''0th'', GDict [(271, VBytes [67])]), (''thumbnail'', GNone)]
   \<and> (\<exists>primary.
         get_primary_exif_values (\<lambda>b. ''C'') [(''0th'', GDict [(271, VBytes [67])]), (''thumbnail'', GNone)]
           = Inr primary
         \<and> map fst primary =
               [''Make'', ''Model'', ''Orientation'', ''XResolution'', ''YResolution'',
                ''ResolutionUnit'', ''Software'']
         \<and> map_of primary ''Make'' = Some (Some (VStr ''C''))
         \<and> map_of primary ''Model'' = Some None)"
proof -
  have ms: "metadata_structure [(''0th'', GDict [(271, VBytes [67])]), (''thumbnail'', GNone)]"
    by (simp add: metadata_structure_def ifd_names_def)
  from primary_record_has_seven_keys [OF ms, of "\<lambda>b. ''C''"]
  show ?thesis using ms
    by (auto simp: tag_map_def ifd_lookup_def get_ifd_def)
qed

subsection \<open>Full metadata dump\<close>

lemma display_all_exif_Cons:
  "display_all_exif tags dec py_str (p # rest) =
     display_all_exif tags dec py_str [p] @ display_all_exif tags dec py_str rest"
proof (cases p)
  case (Pair n g)
  show ?thesis
  proof (cases g)
    case (GDict d)
    then show ?thesis using Pair by (cases d) simp_all
  qed (simp_all add: Pair)
qed

lemma display_all_exif_concat:
  "display_all_exif tags dec py_str exif =
     concat (map (\<lambda>p. display_all_exif tags dec py_str [p]) exif)"
proof (induction exif)
  case Nil
  show ?case by simp
next
  case (Cons p rest)
  show ?case
    using display_all_exif_Cons [of tags dec py_str p rest] Cons.IH by simp
qed

lemma display_tags_map:
  "display_tags tags dec py_str n d = map (tag_line tags dec py_str n) d"
  by (induction d) simp_all

text \<open>
  Claim C5. The dump handles the top-level groups one after the other, in order. A group
  contributes nothing exactly when its value is not a mapping or is the empty mapping.
  Every other group contributes its heading followed by one label/value line per tag, in
  the order of the mapping. The label is the name the tag-name table gives for the tag
  id under the group's name, and \<open>Tag <id>\<close> where the table has no entry for the
  group or for the id. The value of the line is the decoded text for a byte sequence,
  and the interpreter's rendering of the value itself for an integer, a text or a tuple.
\<close>

theorem full_dump_groups_and_lines:
  "display_all_exif tags dec py_str exif =
      concat (map (\<lambda>(n, g). display_all_exif tags dec py_str [(n, g)]) exif)
   \<and> (display_all_exif tags dec py_str [(n, g)] = [] \<longleftrightarrow> \<not> is_mapping g \<or> g = GDict [])
   \<and> (d \<noteq> [] \<longrightarrow>
        display_all_exif tags dec py_str [(n, GDict d)] =
          Subheader (n @ '' EXIF'')
            # map (\<lambda>(tag, v).
                  Write (''**'' @ tag_name tags n tag @ '':** ''
                           @ (case v of
                                VBytes bs \<Rightarrow> dec bs
                              | VInt k \<Rightarrow> py_str (VInt k)
                              | VStr txt \<Rightarrow> py_str (VStr txt)
                              | VTuple vs \<Rightarrow> py_str (VTuple vs)))) d)
   \<and> (tags n = Some t \<and> t tag = Some nm \<longrightarrow> tag_name tags n tag = nm)
   \<and> (tags n = None \<or> (tags n = Some t \<and> t tag = None) \<longrightarrow>
        tag_name tags n tag = ''Tag '' @ show_int tag)
   \<and> value_text dec py_str (VBytes b) = dec b
   \<and> value_text dec py_str (VInt i) = py_str (VInt i)
   \<and> value_text dec py_str (VStr s) = py_str (VStr s)
   \<and> value_text dec py_str (VTuple xs) = py_str (VTuple xs)"
proof (intro conjI)
  have "(\<lambda>(n, g). display_all_exif tags dec py_str [(n, g)]) =
          (\<lambda>p. display_all_exif tags dec py_str [p])"
    by auto
  then show "display_all_exif tags dec py_str exif =
      concat (map (\<lambda>(n, g). display_all_exif tags dec py_str [(n, g)]) exif)"
    using display_all_exif_concat [of tags dec py_str exif] by simp
next
  show "display_all_exif tags dec py_str [(n, g)] = [] \<longleftrightarrow> \<not> is_mapping g \<or> g = GDict []"
  proof (cases g)
    case (GDict d')
    then show ?thesis by (cases d') simp_all
  qed simp_all
next
  let ?line = "\<lambda>(tag, v).
                  Write (''**'' @ tag_name tags n tag @ '':** ''
                           @ (case v of
                                VBytes bs \<Rightarrow> dec bs
                              | VInt k \<Rightarrow> py_str (VInt k)
                              | VStr txt \<Rightarrow> py_str (VStr txt)
                              | VTuple vs \<Rightarrow> py_str (VTuple vs)))"
  show "d \<noteq> [] \<longrightarrow>
        display_all_exif tags dec py_str [(n, GDict d)] = Subheader (n @ '' EXIF'') # map ?line d"
  proof
    assume "d \<noteq> []"
    then obtain tv tvs where d: "d = tv # tvs" by (cases d) auto
    have "tag_line tags dec py_str n tv' = ?line tv'" for tv'
    proof (cases tv')
      case (Pair tag v)
      then show ?thesis by (cases v) (simp_all add: tag_line_def)
    qed
    then have "tag_line tags dec py_str n = ?line" by (simp add: fun_eq_iff)
    then have "display_tags tags dec py_str n d = map ?line d"
      using display_tags_map [of tags dec py_str n d] by simp
    then show "display_all_exif tags dec py_str [(n, GDict d)] =
                 Subheader (n @ '' EXIF'') # map ?line d"
      by (simp add: d)
  qed
qed (auto simp: tag_name_def)

theorem full_dump_groups_and_lines_witness:
  "display_all_exif
     (\<lambda>n. if n = ''GPS'' then Some (\<lambda>t. if t = 1 then Some ''GPSLatitudeRef'' else None) else None)
     (\<lambda>b. if b = [78] then ''N'' else ''W'')
     (\<lambda>v. case v of VInt k \<Rightarrow> show_int k | VStr txt \<Rightarrow> txt
             | VTuple vs \<Rightarrow> ''tuple'' | VBytes bs \<Rightarrow> ''bytes'')
     [(''thumbnail'', GBytes [255]), (''0th'', GDict []),
      (''GPS'', GDict [(1, VBytes [78]), (3, VBytes [87]), (99, VInt 5), (6, VInt 17),
                       (29, VStr ''2024:01:02'')])] =
   [Subheader ''GPS EXIF'', Write ''**GPSLatitudeRef:** N'', Write ''**Tag 3:** W'',
    Write ''**Tag 99:** 5'', Write ''**Tag 6:** 17'', Write ''**Tag 29:** 2024:01:02'']"
  using full_dump_groups_and_lines
    [of "\<lambda>n. if n = ''GPS'' then Some (\<lambda>t. if t = 1 then Some ''GPSLatitudeRef'' else None) else None"
        "\<lambda>b. if b = [78] then ''N'' else ''W''"
        "\<lambda>v. case v of VInt k \<Rightarrow> show_int k | VStr txt \<Rightarrow> txt
             | VTuple vs \<Rightarrow> ''tuple'' | VBytes bs \<Rightarrow> ''bytes''"
        "[(''thumbnail'', GBytes [255]), (''0th'', GDict []),
          (''GPS'', GDict [(1, VBytes [78]), (3, VBytes [87]), (99, VInt 5), (6, VInt 17),
                           (29, VStr ''2024:01:02'')])]"
        "''GPS''"
        "GDict [(1, VBytes [78]), (3, VBytes [87]), (99, VInt 5), (6, VInt 17),
                (29, VStr ''2024:01:02'')]"
        "[(1, VBytes [78]), (3, VBytes [87]), (99, VInt 5), (6, VInt 17),
          (29, VStr ''2024:01:02'')]"
        "\<lambda>t. if t = 1 then Some ''GPSLatitudeRef'' else None" 1 "''GPSLatitudeRef''" "[78]"
        5 "''2024:01:02''" "[]"]
  by (simp add: tag_name_def show_int_def show_nat.simps digit_char_def)

subsection \<open>Evaluation of the floating-point operations\<close>

lemma floor_rat_numeral_div:
  "\<lfloor>(numeral a :: rat) / numeral b\<rfloor> = numeral a div numeral b"
  by (metis floor_divide_of_int_eq of_int_numeral)

lemma floor_rat_neg_numeral_div:
  "\<lfloor>- ((numeral a :: rat) / numeral b)\<rfloor> = - numeral a div numeral b"
  by (metis divide_minus_left floor_divide_of_int_eq of_int_neg_numeral of_int_numeral)

lemma floor_rat_one_div:
  "\<lfloor>(1 :: rat) / numeral b\<rfloor> = 1 div numeral b"
  by (metis floor_divide_of_int_eq of_int_numeral of_int_1)

lemma ceiling_rat_numeral_div:
  "\<lceil>(numeral a :: rat) / numeral b\<rceil> = - (- numeral a div numeral b)"
  by (metis ceiling_def divide_minus_left floor_divide_of_int_eq of_int_neg_numeral of_int_numeral)

lemmas fl_eval =
  round_b64_def quantum_def ilog2_def pow2_def round_half_even_def Let_def bit_length.simps
  floor_rat_numeral_div floor_rat_neg_numeral_div floor_rat_one_div ceiling_rat_numeral_div
  checked_def ieee_def b64_max_bound_def int_truediv_def float_of_int_def float_div_int_def

lemmas fb_eval = format_bytes_def format_loop.simps units_def power_c_def list_index_def
  two_places_def show_nat.simps digit_char_def

lemmas dms_eval = get_decimal_from_dms_def dms_body_def dms_component_def

subsection \<open>GPS coordinate converter\<close>

lemma int_truediv_zero: "int_truediv a 0 = Inl ZeroDivisionError"
  by (simp add: int_truediv_def)

lemma dms_component_pair:
  "i < length xs \<Longrightarrow> xs ! i = VTuple [VInt a, VInt b] \<Longrightarrow>
   dms_component (VTuple xs) i = int_truediv a b"
  by (simp add: dms_component_def)

lemma dms_component_short:
  "length xs \<le> i \<Longrightarrow> dms_component (VTuple xs) i = Inl IndexError"
  by (simp add: dms_component_def)

lemma dms_body_component_error:
  assumes "i < 3" and "dms_component dms i = Inl e"
  shows "\<exists>e'. dms_body dms ref = Inl e'"
proof -
  from assms(1) have "i = 0 \<or> i = 1 \<or> i = 2" by linarith
  with assms(2) show ?thesis
    by (cases "dms_component dms 0"; cases "dms_component dms 1"; cases "dms_component dms 2")
       (auto simp: dms_body_def)
qed

lemma get_decimal_from_dms_error:
  "dms_body dms ref = Inl e \<Longrightarrow> get_decimal_from_dms dms ref = (None, [Warning e])"
  by (simp add: get_decimal_from_dms_def)

text \<open>
  Claim C2. For every triple of integer pairs with a zero denominator anywhere,
  \<open>get_decimal_from_dms\<close> returns the missing value and shows a warning; so it does
  for a sequence of fewer than three elements, and for every input on which the
  arithmetic raises. The function returns a value on every input: no exception leaves
  it.
\<close>

theorem zero_denominator_returns_none:
  "(b = 0 \<or> d = 0 \<or> f = 0 \<longrightarrow>
      (\<exists>err. get_decimal_from_dms
                (VTuple [VTuple [VInt a, VInt b], VTuple [VInt c, VInt d], VTuple [VInt e, VInt f]])
                ref = (None, [Warning err])))
   \<and> (length xs < 3 \<longrightarrow> (\<exists>err. get_decimal_from_dms (VTuple xs) ref = (None, [Warning err])))
   \<and> (\<forall>err. dms_body dms ref = Inl err \<longrightarrow> get_decimal_from_dms dms ref = (None, [Warning err]))"
proof (intro conjI impI allI)
  let ?dms = "VTuple [VTuple [VInt a, VInt b], VTuple [VInt c, VInt d], VTuple [VInt e, VInt f]]"
  assume z: "b = 0 \<or> d = 0 \<or> f = 0"
  have c0: "dms_component ?dms 0 = int_truediv a b"
    and c1: "dms_component ?dms 1 = int_truediv c d"
    and c2: "dms_component ?dms 2 = int_truediv e f"
    by (simp_all add: dms_component_def)
  from z obtain i where "i < 3" and "dms_component ?dms i = Inl ZeroDivisionError"
  proof (elim disjE)
    assume "b = 0" and r: "\<And>i. i < 3 \<Longrightarrow> dms_component ?dms i = Inl ZeroDivisionError \<Longrightarrow> thesis"
    then show thesis using c0 int_truediv_zero [of a] r [of 0] by simp
  next
    assume "d = 0" and r: "\<And>i. i < 3 \<Longrightarrow> dms_component ?dms i = Inl ZeroDivisionError \<Longrightarrow> thesis"
    then show thesis using c1 int_truediv_zero [of c] r [of 1] by simp
  next
    assume "f = 0" and r: "\<And>i. i < 3 \<Longrightarrow> dms_component ?dms i = Inl ZeroDivisionError \<Longrightarrow> thesis"
    then show thesis using c2 int_truediv_zero [of e] r [of 2] by simp
  qed
  then obtain err where "dms_body ?dms ref = Inl err"
    using dms_body_component_error by blast
  then show "\<exists>err. get_decimal_from_dms ?dms ref = (None, [Warning err])"
    by (auto dest: get_decimal_from_dms_error)
next
  assume "length xs < 3"
  then have "dms_component (VTuple xs) 2 = Inl IndexError"
    by (simp add: dms_component_short)
  then obtain err where "dms_body (VTuple xs) ref = Inl err"
    using dms_body_component_error [of 2 "VTuple xs" IndexError ref] by auto
  then show "\<exists>err. get_decimal_from_dms (VTuple xs) ref = (None, [Warning err])"
    by (auto dest: get_decimal_from_dms_error)
next
  fix err assume "dms_body dms ref = Inl err"
  then show "get_decimal_from_dms dms ref = (None, [Warning err])"
    by (rule get_decimal_from_dms_error)
qed

theorem zero_denominator_returns_none_witness:
  "get_decimal_from_dms
     (VTuple [VTuple [VInt 40, VInt 1], VTuple [VInt 26, VInt 0], VTuple [VInt 0, VInt 1]]) ''N''
     = (None, [Warning ZeroDivisionError])"
  using zero_denominator_returns_none [of 1 0 1 40 26 0 "''N''" "[]" "VInt 0"]
  by (simp add: dms_eval fl_eval)

subsection \<open>GPS values\<close>

lemma py_decode_decodable: "decodable decs v \<Longrightarrow> \<exists>s. py_decode decs v = Inr s"
  by (cases v) (auto simp: decodable_def)

lemma gps_body_KeyError:
  assumes absent: "\<exists>t \<in> set gps_tag_ids. map_of d t = None"
    and ref_ok: "\<And>dms v. map_of d GPSLatitude = Some dms \<Longrightarrow> map_of d GPSLatitudeRef = Some v
                  \<Longrightarrow> decodable decs v"
  shows "fst (gps_body decs (GDict d)) = Inl KeyError"
proof (cases "map_of d GPSLatitude")
  case None
  then show ?thesis by (simp add: gps_body_def)
next
  case lat: (Some dms)
  show ?thesis
  proof (cases "map_of d GPSLatitudeRef")
    case None
    with lat show ?thesis by (simp add: gps_body_def)
  next
    case r: (Some v)
    from ref_ok [OF lat r] obtain s where s: "py_decode decs v = Inr s"
      using py_decode_decodable by blast
    obtain res w where g: "get_decimal_from_dms dms s = (res, w)" by (cases "get_decimal_from_dms dms s")
    from absent lat r have "map_of d GPSLongitude = None \<or> map_of d GPSLongitudeRef = None"
      by (auto simp: gps_tag_ids_def)
    then show ?thesis
    proof
      assume "map_of d GPSLongitude = None"
      with lat r s g show ?thesis by (simp add: gps_body_def)
    next
      assume n: "map_of d GPSLongitudeRef = None"
      show ?thesis
      proof (cases "map_of d GPSLongitude")
        case None
        with lat r s g show ?thesis by (simp add: gps_body_def)
      next
        case (Some dms')
        with lat r s g n show ?thesis by (simp add: gps_body_def)
      qed
    qed
  qed
qed

text \<open>
  Claim C6, as the code has it. For every metadata structure in which one of the four
  expected GPS tags is absent from the GPS group, and in which the latitude reference,
  where it is looked up before the absent tag (latitude and latitude reference both
  present), is a byte sequence that decodes, \<open>extract_gps_coords\<close> returns the pair
  of missing values without raising.
\<close>

theorem absent_gps_tag_returns_missing_pair:
  assumes ms: "metadata_structure exif"
    and absent: "\<exists>t \<in> set gps_tag_ids. ifd_lookup exif ''GPS'' t = None"
    and ref_ok: "\<forall>dms v. ifd_lookup exif ''GPS'' GPSLatitude = Some dms
                   \<and> ifd_lookup exif ''GPS'' GPSLatitudeRef = Some v \<longrightarrow> decodable decs v"
  shows "fst (extract_gps_coords decs exif) = Inr (None, None)"
proof -
  obtain d where d: "get_ifd exif ''GPS'' = GDict d"
    using metadata_structure_ifd [OF ms, of "''GPS''"] by (auto simp: ifd_names_def)
  have "fst (gps_body decs (GDict d)) = Inl KeyError"
    using absent ref_ok by (intro gps_body_KeyError) (auto simp: ifd_lookup_def d)
  then show ?thesis
    by (cases "gps_body decs (GDict d)") (simp add: extract_gps_coords_def d)
qed

theorem absent_gps_tag_returns_missing_pair_witness:
  "metadata_structure
     [(''0th'', GDict []),
      (''GPS'', GDict [(2, VTuple [VTuple [VInt 40, VInt 1], VTuple [VInt 26, VInt 1], VTuple [VInt 0, VInt 1]]),
                       (1, VBytes [78])])]
   \<and> extract_gps_coords (\<lambda>b. Some ''N'')
     [(''0th'', GDict []),
      (''GPS'', GDict [(2, VTuple [VTuple [VInt 40, VInt 1], VTuple [VInt 26, VInt 1], VTuple [VInt 0, VInt 1]]),
                       (1, VBytes [78])])] = (Inr (None, None), [])"
proof -
  let ?exif = "[(''0th'', GDict []),
      (''GPS'', GDict [(2, VTuple [VTuple [VInt 40, VInt 1], VTuple [VInt 26, VInt 1], VTuple [VInt 0, VInt 1]]),
                       (1, VBytes [78])])]"
  have ms: "metadata_structure ?exif"
    by (simp add: metadata_structure_def ifd_names_def)
  have absent: "\<exists>t \<in> set gps_tag_ids. ifd_lookup ?exif ''GPS'' t = None"
    by (simp add: gps_tag_ids_def ifd_lookup_def get_ifd_def GPSLatitude_def GPSLatitudeRef_def
        GPSLongitude_def GPSLongitudeRef_def)
  have ref_ok: "\<forall>dms v. ifd_lookup ?exif ''GPS'' GPSLatitude = Some dms
                   \<and> ifd_lookup ?exif ''GPS'' GPSLatitudeRef = Some v \<longrightarrow> decodable (\<lambda>b. Some ''N'') v"
    by (simp add: ifd_lookup_def get_ifd_def GPSLatitude_def GPSLatitudeRef_def decodable_def)
  have w: "snd (extract_gps_coords (\<lambda>b. Some ''N'') ?exif) = []"
    by (simp add: extract_gps_coords_def gps_body_def get_ifd_def GPSLatitude_def
        GPSLatitudeRef_def GPSLongitude_def GPSLongitudeRef_def dms_eval fl_eval)
  from absent_gps_tag_returns_missing_pair [OF ms absent ref_ok] w ms
  show ?thesis by (simp add: prod_eq_iff)
qed

text \<open>
  Claim C6 as stated fails: the GPS group below has no longitude tag, but its latitude
  reference is an integer, not a byte sequence; the call of \<^verbatim>\<open>.decode()\<close> on it
  raises AttributeError before the longitude is looked up, and only KeyError is caught.
  The decoder plays no part in this.
\<close>

theorem undecodable_reference_counterexample:
  "metadata_structure
     [(''GPS'', GDict [(2, VTuple [VTuple [VInt 40, VInt 1], VTuple [VInt 26, VInt 1], VTuple [VInt 0, VInt 1]]),
                       (1, VInt 78)])]
   \<and> ifd_lookup
     [(''GPS'', GDict [(2, VTuple [VTuple [VInt 40, VInt 1], VTuple [VInt 26, VInt 1], VTuple [VInt 0, VInt 1]]),
                       (1, VInt 78)])] ''GPS'' GPSLongitude = None
   \<and> extract_gps_coords (\<lambda>b. Some ''N'')
     [(''GPS'', GDict [(2, VTuple [VTuple [VInt 40, VInt 1], VTuple [VInt 26, VInt 1], VTuple [VInt 0, VInt 1]]),
                       (1, VInt 78)])] = (Inl AttributeError, [])"
  by (simp add: metadata_structure_def ifd_names_def ifd_lookup_def extract_gps_coords_def
      gps_body_def get_ifd_def GPSLatitude_def GPSLatitudeRef_def GPSLongitude_def
      GPSLongitudeRef_def)

subsection \<open>Presentation layer\<close>

lemma main_loaded_files:
  "files (main env (Some up) fs) temp_path =
     (if raised (main env (Some up) fs) = None then None else Some (up_content up))"
proof (cases "env_image_open env (up_content up)")
  case (Inl e)
  then show ?thesis by (simp add: main_def)
next
  case img: (Inr img)
  show ?thesis
  proof (cases "env_piexif_load env (case img_exif img of None \<Rightarrow> [] | Some b \<Rightarrow> b)")
    case (Inl e)
    with img show ?thesis by (simp add: main_def)
  next
    case exif: (Inr exif)
    obtain evs r where s: "summary_tab env up img exif = (evs, r)"
      by (cases "summary_tab env up img exif")
    show ?thesis
    proof (cases r)
      case None
      with img exif s show ?thesis by (simp add: main_def)
    next
      case (Some e)
      with img exif s show ?thesis by (simp add: main_def)
    qed
  qed
qed

lemma main_raised_none_iff:
  "raised (main env (Some up) fs) = None \<longleftrightarrow>
     (\<exists>img exif sz primary latlon w.
        env_image_open env (up_content up) = Inr img
      \<and> env_piexif_load env (case img_exif img of None \<Rightarrow> [] | Some b \<Rightarrow> b) = Inr exif
      \<and> format_bytes (int (length (up_content up))) = Inr sz
      \<and> get_primary_exif_values (env_dec env) exif = Inr primary
      \<and> extract_gps_coords (env_decs env) exif = (Inr latlon, w))"
proof (cases "env_image_open env (up_content up)")
  case (Inl e)
  then show ?thesis by (simp add: main_def)
next
  case img: (Inr img)
  show ?thesis
  proof (cases "env_piexif_load env (case img_exif img of None \<Rightarrow> [] | Some b \<Rightarrow> b)")
    case (Inl e)
    with img show ?thesis by (simp add: main_def)
  next
    case exif: (Inr exif)
    show ?thesis
    proof (cases "format_bytes (int (length (up_content up)))")
      case (Inl e)
      with img exif show ?thesis by (simp add: main_def summary_tab_def)
    next
      case sz: (Inr sz)
      show ?thesis
      proof (cases "get_primary_exif_values (env_dec env) exif")
        case (Inl e)
        with img exif sz show ?thesis by (simp add: main_def summary_tab_def camera_section_def)
      next
        case pr: (Inr primary)
        obtain g w where g: "extract_gps_coords (env_decs env) exif = (g, w)"
          by (cases "extract_gps_coords (env_decs env) exif")
        show ?thesis
        proof (cases g)
          case (Inl e)
          with img exif sz pr g show ?thesis
            by (simp add: main_def summary_tab_def camera_section_def gps_section_def)
        next
          case (Inr latlon)
          with img exif sz pr g show ?thesis
            by (auto simp: main_def summary_tab_def camera_section_def gps_section_def
                split: option.splits prod.splits)
        qed
      qed
    qed
  qed
qed

text \<open>
  Claim C7, as the code has it. For every render pass that enters the Loaded state, the
  temporary file is removed by the end of the pass exactly when no step of the pass
  raises; and no step raises exactly when the image decodes, its metadata parses, and
  the size formatter, the primary-value extraction and the GPS extraction return. The
  failures that the extraction functions handle themselves (a GPS conversion that warns,
  a missing GPS tag) are among the passes that remove the file.
\<close>

theorem temp_file_removed_unless_raised:
  "(files (main env (Some up) fs) temp_path = None \<longleftrightarrow> raised (main env (Some up) fs) = None)
   \<and> (raised (main env (Some up) fs) = None \<longleftrightarrow>
        (\<exists>img exif sz primary latlon w.
           env_image_open env (up_content up) = Inr img
         \<and> env_piexif_load env (case img_exif img of None \<Rightarrow> [] | Some b \<Rightarrow> b) = Inr exif
         \<and> format_bytes (int (length (up_content up))) = Inr sz
         \<and> get_primary_exif_values (env_dec env) exif = Inr primary
         \<and> extract_gps_coords (env_decs env) exif = (Inr latlon, w)))"
  using main_loaded_files [of env up fs] main_raised_none_iff [of env up fs]
  by (simp split: if_splits)

text \<open>
  Claim C7 as stated fails: when the image decoder raises, the pass ends there and the
  temporary file written before is still on disk.
\<close>

theorem temp_file_left_counterexample:
  "files (main \<lparr>env_image_open = (\<lambda>b. Inl OSError), env_piexif_load = (\<lambda>b. Inr []),
                env_tags = (\<lambda>n. None), env_dec = (\<lambda>b. []), env_decs = (\<lambda>b. None),
                env_py_str = (\<lambda>v. []), env_float_str = (\<lambda>x. []), env_mtime = []\<rparr>
          (Some \<lparr>up_name = ''a.jpg'', up_content = [0]\<rparr>) (\<lambda>p. None)) temp_path = Some [0]
   \<and> raised (main \<lparr>env_image_open = (\<lambda>b. Inl OSError), env_piexif_load = (\<lambda>b. Inr []),
                env_tags = (\<lambda>n. None), env_dec = (\<lambda>b. []), env_decs = (\<lambda>b. None),
                env_py_str = (\<lambda>v. []), env_float_str = (\<lambda>x. []), env_mtime = []\<rparr>
          (Some \<lparr>up_name = ''a.jpg'', up_content = [0]\<rparr>) (\<lambda>p. None)) = Some OSError"
  by (simp add: main_def)

theorem temp_file_removed_unless_raised_witness:
  "files (main \<lparr>env_image_open = (\<lambda>b. Inr \<lparr>img_format = ''JPEG'', img_width = 4, img_height = 3,
                                              img_mode = ''RGB'', img_exif = None\<rparr>),
                env_piexif_load = (\<lambda>b. Inr [(''0th'', GDict []), (''GPS'', GDict [])]),
                env_tags = (\<lambda>n. None), env_dec = (\<lambda>b. []), env_decs = (\<lambda>b. None),
                env_py_str = (\<lambda>v. []), env_float_str = (\<lambda>x. []), env_mtime = []\<rparr>
          (Some \<lparr>up_name = ''a.jpg'', up_content = [0]\<rparr>) (\<lambda>p. None)) temp_path = None"
  using temp_file_removed_unless_raised
    [of "\<lparr>env_image_open = (\<lambda>b. Inr \<lparr>img_format = ''JPEG'', img_width = 4, img_height = 3,
                                              img_mode = ''RGB'', img_exif = None\<rparr>),
                env_piexif_load = (\<lambda>b. Inr [(''0th'', GDict []), (''GPS'', GDict [])]),
                env_tags = (\<lambda>n. None), env_dec = (\<lambda>b. []), env_decs = (\<lambda>b. None),
                env_py_str = (\<lambda>v. []), env_float_str = (\<lambda>x. []), env_mtime = []\<rparr>"
        "\<lparr>up_name = ''a.jpg'', up_content = [0]\<rparr>" "\<lambda>p. None"]
  by (simp add: fb_eval fl_eval get_primary_exif_values_def get_ifd_def extract_gps_coords_def
      gps_body_def GPSLatitude_def)

subsection \<open>Rounding to binary64\<close>

lemma bit_length_upper: "n < 2 ^ bit_length n"
proof (induction n rule: bit_length.induct)
  case (1 n)
  show ?case
  proof (cases "n = 0")
    case True
    then show ?thesis by (simp add: bit_length.simps)
  next
    case False
    with 1 have "n div 2 < 2 ^ bit_length (n div 2)" by simp
    then have "n < 2 * 2 ^ bit_length (n div 2)" by linarith
    with False show ?thesis by (simp add: bit_length.simps [of n])
  qed
qed

lemma bit_length_lower: "0 < n \<Longrightarrow> 2 ^ (bit_length n - 1) \<le> n"
proof (induction n rule: bit_length.induct)
  case (1 n)
  show ?case
  proof (cases "n div 2 = 0")
    case True
    with "1.prems" have "n = 1" by (simp add: div_eq_0_iff) 
    then show ?thesis by (simp add: bit_length.simps)
  next
    case False
    with 1 have ih: "2 ^ (bit_length (n div 2) - 1) \<le> n div 2" by simp
    from False have pos: "0 < bit_length (n div 2)" by (simp add: bit_length.simps [of "n div 2"])
    have "bit_length n = Suc (bit_length (n div 2))"
      using "1.prems" by (simp add: bit_length.simps [of n])
    then have "(2::nat) ^ (bit_length n - 1) = 2 * 2 ^ (bit_length (n div 2) - 1)"
      using pos by (cases "bit_length (n div 2)") simp_all
    with ih show ?thesis by linarith
  qed
qed

lemma pow2_powi: "pow2 e = 2 powi e"
  by (simp add: pow2_def power_int_def power_one_over inverse_eq_divide)

lemma pow2_pos: "0 < pow2 e"
  by (simp add: pow2_powi)

lemma pow2_add: "pow2 (a + b) = pow2 a * pow2 b"
  by (simp add: pow2_powi power_int_add)

lemma pow2_nat: "pow2 (int n) = 2 ^ n"
  by (simp add: pow2_def)

lemma pow2_mono: "a \<le> b \<Longrightarrow> pow2 a \<le> pow2 b"
  by (simp add: pow2_powi power_int_increasing)

lemma pow2_less_cancel: "pow2 a < pow2 b \<Longrightarrow> a < b"
  using pow2_mono [of b a] by (cases "a < b") auto

lemma pow2_diff: "pow2 (a - b) = pow2 a / pow2 b"
  by (simp add: pow2_powi power_int_diff)

lemma ilog2_lower: assumes "0 < x" shows "pow2 (ilog2 x) \<le> x"
proof (cases "1 \<le> x")
  case True
  then have pos: "0 < nat \<lfloor>x\<rfloor>" by simp
  have "ilog2 x = int (bit_length (nat \<lfloor>x\<rfloor>) - 1)"
    using True bit_length_upper [of "nat \<lfloor>x\<rfloor>"] pos
    by (cases "bit_length (nat \<lfloor>x\<rfloor>)") (simp_all add: ilog2_def)
  then have "pow2 (ilog2 x) = of_nat (2 ^ (bit_length (nat \<lfloor>x\<rfloor>) - 1))"
    by (simp add: pow2_nat)
  also have "\<dots> \<le> of_nat (nat \<lfloor>x\<rfloor>)"
    using bit_length_lower [OF pos] by (simp only: of_nat_le_iff)
  also have "\<dots> = of_int \<lfloor>x\<rfloor>" using True by simp
  also have "\<dots> \<le> x" by simp
  finally show ?thesis .
next
  case False
  define c where "c = nat (\<lceil>1 / x\<rceil> - 1)"
  define k where "k = bit_length c"
  from False assms have "1 < 1 / x" by (simp add: field_simps)
  then have c1: "1 \<le> \<lceil>1 / x\<rceil> - 1" by (simp add: less_ceiling_iff)
  have "c < 2 ^ k" unfolding k_def by (rule bit_length_upper)
  then have "int c < 2 ^ k" by (metis of_nat_less_iff of_nat_numeral of_nat_power)
  moreover have "int c = \<lceil>1 / x\<rceil> - 1" using c1 unfolding c_def by linarith
  ultimately have "\<lceil>1 / x\<rceil> \<le> 2 ^ k" by linarith
  then have "1 / x \<le> 2 ^ k"
    by (metis ceiling_le_iff of_int_numeral of_int_power)
  then have "1 \<le> 2 ^ k * x" using assms by (simp add: field_simps)
  then have "1 / 2 ^ k \<le> x" by (simp add: field_simps)
  moreover have "pow2 (ilog2 x) = 1 / 2 ^ k"
    using False by (simp add: ilog2_def pow2_def c_def k_def)
  ultimately show ?thesis by simp
qed

lemma ilog2_upper: assumes "0 < x" shows "x < pow2 (ilog2 x + 1)"
proof (cases "1 \<le> x")
  case True
  then have pos: "0 < nat \<lfloor>x\<rfloor>" by simp
  define k where "k = bit_length (nat \<lfloor>x\<rfloor>)"
  have "nat \<lfloor>x\<rfloor> < 2 ^ k" unfolding k_def by (rule bit_length_upper)
  then have "int (nat \<lfloor>x\<rfloor>) < int (2 ^ k)" by (simp only: of_nat_less_iff)
  then have "\<lfloor>x\<rfloor> < 2 ^ k" using pos by simp
  then have "x < 2 ^ k" by (metis floor_less_iff of_int_numeral of_int_power)
  moreover have "ilog2 x + 1 = int k" using True by (simp add: ilog2_def k_def)
  ultimately show ?thesis by (simp add: pow2_nat)
next
  case False
  define c where "c = nat (\<lceil>1 / x\<rceil> - 1)"
  define k where "k = bit_length c"
  from False assms have "1 < 1 / x" by (simp add: field_simps)
  then have c1: "1 \<le> \<lceil>1 / x\<rceil> - 1" by (simp add: less_ceiling_iff)
  then have cpos: "0 < c" by (simp add: c_def)
  have "2 ^ (k - 1) \<le> c" unfolding k_def using cpos by (rule bit_length_lower)
  then have "int (2 ^ (k - 1)) \<le> int c" by (simp only: of_nat_le_iff)
  moreover have "int c = \<lceil>1 / x\<rceil> - 1" using c1 unfolding c_def by linarith
  ultimately have "2 ^ (k - 1) < \<lceil>1 / x\<rceil>" by simp
  then have "2 ^ (k - 1) < 1 / x"
    by (metis less_ceiling_iff of_int_numeral of_int_power)
  then have lt: "x < 1 / 2 ^ (k - 1)" using assms by (simp add: field_simps)
  have kpos: "0 < k" using cpos by (simp add: k_def bit_length.simps [of c])
  have "ilog2 x + 1 = - int (k - 1)" using False kpos by (simp add: ilog2_def c_def k_def)
  then have "pow2 (ilog2 x + 1) = 1 / 2 ^ (k - 1)"
    by (simp add: pow2_powi power_int_minus inverse_eq_divide)
  with lt show ?thesis by simp
qed
lemma pow2_52: "pow2 52 = 2 ^ 52" and pow2_53: "pow2 53 = 2 ^ 53"
  and pow2_1024: "pow2 1024 = 2 ^ 1024"
  by (simp_all add: pow2_def)

lemma round_half_even_cases:
  "round_half_even y = \<lfloor>y\<rfloor> \<or> round_half_even y = \<lfloor>y\<rfloor> + 1"
  by (simp add: round_half_even_def Let_def)

lemma round_half_even_err: "\<bar>of_int (round_half_even y) - y\<bar> \<le> 1 / 2"
proof -
  have "of_int \<lfloor>y\<rfloor> \<le> y" "y < of_int \<lfloor>y\<rfloor> + 1" by linarith+
  then show ?thesis
    by (auto simp: round_half_even_def Let_def abs_le_iff)
qed

lemma round_half_even_of_int: "round_half_even (of_int k) = k"
  by (simp add: round_half_even_def)

lemma round_half_even_ge: assumes "of_int k \<le> y" shows "k \<le> round_half_even y"
proof -
  from assms have "k \<le> \<lfloor>y\<rfloor>" by (simp add: le_floor_iff)
  then show ?thesis using round_half_even_cases [of y] by linarith
qed

lemma round_half_even_le: assumes "y \<le> of_int k" shows "round_half_even y \<le> k"
proof (cases "y = of_int k")
  case True
  then show ?thesis by (simp add: round_half_even_of_int)
next
  case False
  with assms have "y < of_int k" by simp
  then have "\<lfloor>y\<rfloor> < k" by (simp add: floor_less_iff)
  then show ?thesis using round_half_even_cases [of y] by auto
qed

lemma round_half_even_minus: "round_half_even (- y) = - round_half_even y"
proof (cases "y = of_int \<lfloor>y\<rfloor>")
  case True
  then obtain k where "y = of_int k" ..
  then show ?thesis
    using round_half_even_of_int [of "- k"] by (simp add: round_half_even_of_int)
next
  case False
  then have fl: "\<lfloor>- y\<rfloor> = - \<lfloor>y\<rfloor> - 1"
    by (metis ceiling_altdef ceiling_def add_diff_cancel_right' minus_diff_eq minus_minus uminus_add_conv_diff) 
  show ?thesis
    by (auto simp: round_half_even_def [of "- y"] round_half_even_def [of y] Let_def fl)
qed

lemma quantum_le:
  assumes "x \<noteq> 0" and "\<bar>x\<bar> \<le> 2 ^ m"
  shows "quantum x \<le> int m - 52"
proof -
  have "0 < \<bar>x\<bar>" using assms(1) by simp
  then have "pow2 (ilog2 \<bar>x\<bar>) \<le> \<bar>x\<bar>" by (rule ilog2_lower)
  also have "\<bar>x\<bar> \<le> pow2 (int m)" using assms(2) by (simp add: pow2_nat)
  also have "\<dots> < pow2 (int m + 1)" by (simp add: pow2_add pow2_pos pow2_def)
  finally have "ilog2 \<bar>x\<bar> < int m + 1" by (rule pow2_less_cancel)
  then show ?thesis by (simp add: quantum_def)
qed

lemma round_b64_err_quantum:
  "x \<noteq> 0 \<Longrightarrow> \<bar>round_b64 x - x\<bar> \<le> pow2 (quantum x) / 2"
proof -
  assume nz: "x \<noteq> 0"
  define q where "q = pow2 (quantum x)"
  have qpos: "0 < q" by (simp add: q_def pow2_pos)
  have "round_b64 x - x = (of_int (round_half_even (x / q)) - x / q) * q"
    using nz qpos by (simp add: round_b64_def q_def field_simps)
  then have "\<bar>round_b64 x - x\<bar> = \<bar>of_int (round_half_even (x / q)) - x / q\<bar> * q"
    using qpos by (simp add: abs_mult)
  also have "\<dots> \<le> (1 / 2) * q"
    using round_half_even_err [of "x / q"] qpos by (intro mult_right_mono) simp_all
  finally show ?thesis by (simp add: q_def)
qed

lemma round_b64_err:
  assumes "\<bar>x\<bar> \<le> 2 ^ m"
  shows "\<bar>round_b64 x - x\<bar> \<le> 2 ^ m / 2 ^ 53"
proof (cases "x = 0")
  case True
  then show ?thesis by (simp add: round_b64_def)
next
  case False
  have "pow2 (quantum x) \<le> pow2 (int m - 52)"
    using quantum_le [OF False assms] by (rule pow2_mono)
  also have "\<dots> = 2 ^ m / 2 ^ 52" by (simp add: pow2_diff pow2_nat pow2_52)
  finally have "pow2 (quantum x) / 2 \<le> 2 ^ m / 2 ^ 53" by simp
  with round_b64_err_quantum [OF False] show ?thesis by linarith
qed

lemma round_b64_minus: "round_b64 (- x) = - round_b64 x"
  by (simp add: round_b64_def quantum_def round_half_even_minus)

lemma round_b64_exact:
  assumes m: "\<bar>m\<bar> < 2 ^ 53" and k: "- 1074 \<le> k"
  shows "round_b64 (of_int m * pow2 k) = of_int m * pow2 k"
proof (cases "m = 0")
  case True
  then show ?thesis by (simp add: round_b64_def)
next
  case False
  define x where "x = of_int m * pow2 k"
  have nz: "x \<noteq> 0" using False pow2_pos [of k] by (simp add: x_def)
  have "\<bar>x\<bar> = of_int \<bar>m\<bar> * pow2 k" using pow2_pos [of k] by (simp add: x_def abs_mult)
  also have "\<dots> < of_int (2 ^ 53) * pow2 k"
    using m pow2_pos [of k] by (intro mult_strict_right_mono) (simp_all only: of_int_less_iff)
  also have "\<dots> = pow2 (53 + k)" by (simp add: pow2_add pow2_53)
  finally have lt: "\<bar>x\<bar> < pow2 (53 + k)" .
  have "pow2 (ilog2 \<bar>x\<bar>) \<le> \<bar>x\<bar>" using nz by (intro ilog2_lower) simp
  with lt have "pow2 (ilog2 \<bar>x\<bar>) < pow2 (53 + k)" by linarith
  then have "ilog2 \<bar>x\<bar> < 53 + k" by (rule pow2_less_cancel)
  with k have qk: "quantum x \<le> k" by (simp add: quantum_def)
  define j where "j = nat (k - quantum x)"
  have "pow2 k = pow2 (int j) * pow2 (quantum x)"
    using qk by (simp add: j_def pow2_add [symmetric])
  then have split: "x = of_int (m * 2 ^ j) * pow2 (quantum x)"
    by (simp add: x_def pow2_nat)
  have "x / pow2 (quantum x) = of_int (m * 2 ^ j)"
    using pow2_pos [of "quantum x"] by (subst split) simp
  then have "round_half_even (x / pow2 (quantum x)) = m * 2 ^ j"
    by (simp only: round_half_even_of_int)
  then have "round_b64 x = of_int (m * 2 ^ j) * pow2 (quantum x)"
    using nz by (simp add: round_b64_def)
  also have "\<dots> = x" by (rule split [symmetric])
  finally show ?thesis unfolding x_def .
qed

lemma round_b64_overflow:
  assumes "2 ^ 1024 \<le> x"
  shows "2 ^ 1024 \<le> round_b64 x"
proof -
  have xpos: "0 < x" using assms by (rule less_le_trans [rotated]) simp
  have "pow2 1024 \<le> x" using assms by (simp only: pow2_1024)
  also have "x < pow2 (ilog2 x + 1)" using xpos by (rule ilog2_upper)
  finally have e: "1024 \<le> ilog2 x" using pow2_less_cancel by fastforce
  then have q: "quantum x = ilog2 x - 52" using xpos by (simp add: quantum_def)
  have "of_int (2 ^ 52) * pow2 (quantum x) = pow2 (ilog2 x)"
    by (simp add: q pow2_diff pow2_52)
  also have "\<dots> \<le> x" using xpos by (rule ilog2_lower)
  finally have "of_int (2 ^ 52) \<le> x / pow2 (quantum x)"
    using pow2_pos [of "quantum x"] by (simp add: field_simps)
  then have "2 ^ 52 \<le> round_half_even (x / pow2 (quantum x))"
    by (rule round_half_even_ge)
  then have "(of_int (2 ^ 52) :: rat) \<le> of_int (round_half_even (x / pow2 (quantum x)))"
    by (simp only: of_int_le_iff)
  then have "of_int (2 ^ 52) * pow2 (quantum x) \<le> round_b64 x"
    using xpos pow2_pos [of "quantum x"] by (simp add: round_b64_def)
  moreover have "of_int (2 ^ 52) * pow2 (quantum x) = pow2 (ilog2 x)"
    by (simp add: q pow2_diff pow2_52)
  moreover have "pow2 1024 \<le> pow2 (ilog2 x)" using e by (rule pow2_mono)
  ultimately show ?thesis by (simp only: pow2_1024)
qed

subsection \<open>Unit formatter\<close>

lemma pow2_0: "pow2 0 = 1"
  by (simp add: pow2_def)

lemma pow2_minus: "pow2 (- e) = 1 / pow2 e"
  using pow2_diff [of 0 e] by (simp add: pow2_0)

lemma pow_1024: "(1024 :: rat) ^ j = pow2 (10 * int j)"
proof -
  have "(1024 :: rat) ^ j = (2 ^ 10) ^ j" by simp
  also have "\<dots> = 2 ^ (10 * j)" by (simp only: power_mult)
  also have "\<dots> = pow2 (int (10 * j))" by (simp only: pow2_nat)
  finally show ?thesis by simp
qed

lemma div_pow_1024: "of_int b / 1024 ^ j = of_int b * pow2 (- (10 * int j))"
  by (simp add: pow_1024 pow2_minus)

lemma round_b64_small:
  assumes "\<bar>m\<bar> < 2 ^ 53" and "- 1074 \<le> k" and "k \<le> 0"
  shows "round_b64 (of_int m * pow2 k) = of_int m * pow2 k"
    and "\<bar>of_int m * pow2 k\<bar> < b64_max_bound"
proof -
  show "round_b64 (of_int m * pow2 k) = of_int m * pow2 k"
    using assms(1,2) by (rule round_b64_exact)
  have "pow2 k \<le> 1" using pow2_mono [OF assms(3)] by (simp add: pow2_0)
  then have "\<bar>of_int m * pow2 k\<bar> \<le> \<bar>of_int m\<bar> * 1"
    unfolding abs_mult using pow2_pos [of k] by (intro mult_left_mono) simp_all
  also have "\<dots> = of_int \<bar>m\<bar>" by simp
  also have "\<dots> < of_int (2 ^ 53)" using assms(1) by (simp only: of_int_less_iff)
  also have "\<dots> < b64_max_bound" by (simp add: b64_max_bound_def)
  finally show "\<bar>of_int m * pow2 k\<bar> < b64_max_bound" .
qed

lemma checked_exact:
  assumes "\<bar>m\<bar> < 2 ^ 53" and "- 1074 \<le> k" and "k \<le> 0"
  shows "checked (of_int m * pow2 k) = Inr (Finite (of_int m * pow2 k))"
  using round_b64_small [OF assms] by (simp add: checked_def)

lemma ieee_exact:
  assumes "\<bar>m\<bar> < 2 ^ 53" and "- 1074 \<le> k" and "k \<le> 0"
  shows "ieee (of_int m * pow2 k) = Finite (of_int m * pow2 k)"
  using round_b64_small [OF assms] by (simp add: ieee_def abs_less_iff)

lemma float_of_int_exact: "\<bar>m\<bar> < 2 ^ 53 \<Longrightarrow> float_of_int m = Inr (Finite (of_int m))"
  using checked_exact [of m 0] by (simp add: float_of_int_def pow2_0)

lemma int_truediv_1024:
  assumes "\<bar>b\<bar> < 2 ^ 53"
  shows "int_truediv b 1024 = Inr (Finite (of_int b / 1024))"
proof -
  have e: "(of_int b :: rat) * pow2 (- 10) = of_int b / 1024"
    using div_pow_1024 [of b 1] by simp
  have "checked (of_int b * pow2 (- 10)) = Inr (Finite (of_int b * pow2 (- 10)))"
    using assms by (intro checked_exact) simp_all
  then have "checked (of_int b / 1024) = Inr (Finite (of_int b / 1024))"
    by (simp only: e)
  then show ?thesis by (simp add: int_truediv_def)
qed

lemma float_div_int_1024:
  assumes "\<bar>b\<bar> < 2 ^ 53" and "j \<le> 100"
  shows "float_div_int (Finite (of_int b / 1024 ^ j)) 1024 = Inr (Finite (of_int b / 1024 ^ Suc j))"
proof -
  have f: "float_of_int 1024 = Inr (Finite 1024)"
    using float_of_int_exact [of 1024] by simp
  have e: "(of_int b :: rat) * pow2 (- (10 * int (Suc j))) = of_int b / 1024 ^ Suc j"
    by (rule div_pow_1024 [symmetric])
  have "ieee (of_int b * pow2 (- (10 * int (Suc j)))) = Finite (of_int b * pow2 (- (10 * int (Suc j))))"
    using assms by (intro ieee_exact) simp_all
  then have ie: "ieee (of_int b / 1024 ^ Suc j) = Finite (of_int b / 1024 ^ Suc j)"
    by (simp only: e)
  have eq: "(of_int b :: rat) / 1024 ^ j / 1024 = of_int b / 1024 ^ Suc j" by simp
  have "float_div_int (Finite (of_int b / 1024 ^ j)) 1024 =
          float_div (Finite (of_int b / 1024 ^ j)) (Finite 1024)"
    by (simp add: float_div_int_def f)
  also have "\<dots> = Inr (ieee (of_int b / 1024 ^ j / 1024))" by simp
  also have "\<dots> = Inr (ieee (of_int b / 1024 ^ Suc j))" by (simp only: eq)
  also have "\<dots> = Inr (Finite (of_int b / 1024 ^ Suc j))" by (simp only: ie)
  finally show ?thesis .
qed

lemma format_loop_float:
  assumes b: "\<bar>b\<bar> < 2 ^ 53"
  shows "j \<le> 4 \<Longrightarrow>
    \<exists>k. j \<le> k \<and> k \<le> 4
      \<and> format_loop (NFloat (Finite (of_int b / 1024 ^ j))) j =
            Inr (NFloat (Finite (of_int b / 1024 ^ k)), k)
      \<and> (of_int b / 1024 ^ k \<le> (1024 :: rat) \<or> k = 4)
      \<and> (\<forall>i. j \<le> i \<and> i < k \<longrightarrow> (1024 :: rat) < of_int b / 1024 ^ i)"
proof (induction "4 - j" arbitrary: j)
  case 0
  then have j: "j = 4" by simp
  have "format_loop (NFloat (Finite (of_int b / 1024 ^ j))) j =
          Inr (NFloat (Finite (of_int b / 1024 ^ j)), j)"
    by (subst format_loop.simps) (simp add: j units_def)
  then show ?case using j by auto
next
  case (Suc d)
  then have j: "j < 4" by simp
  show ?case
  proof (cases "(1024 :: rat) < of_int b / 1024 ^ j")
    case False
    have "format_loop (NFloat (Finite (of_int b / 1024 ^ j))) j =
            Inr (NFloat (Finite (of_int b / 1024 ^ j)), j)"
      using False by (subst format_loop.simps) (simp add: power_c_def)
    then show ?thesis using False j by (intro exI [of _ j]) auto
  next
    case True
    have step: "format_loop (NFloat (Finite (of_int b / 1024 ^ j))) j =
            format_loop (NFloat (Finite (of_int b / 1024 ^ Suc j))) (Suc j)"
      using True j float_div_int_1024 [OF b, of j]
      by (subst format_loop.simps) (simp add: power_c_def units_def)
    from Suc have "d = 4 - Suc j" and "Suc j \<le> 4" by simp_all
    from Suc.hyps(1) [OF this] obtain k where k: "Suc j \<le> k" "k \<le> 4"
      "format_loop (NFloat (Finite (of_int b / 1024 ^ Suc j))) (Suc j) =
            Inr (NFloat (Finite (of_int b / 1024 ^ k)), k)"
      "of_int b / 1024 ^ k \<le> (1024 :: rat) \<or> k = 4"
      "\<forall>i. Suc j \<le> i \<and> i < k \<longrightarrow> (1024 :: rat) < of_int b / 1024 ^ i"
      by blast
    have "\<forall>i. j \<le> i \<and> i < k \<longrightarrow> (1024 :: rat) < of_int b / 1024 ^ i"
    proof (intro allI impI)
      fix i assume "j \<le> i \<and> i < k"
      then have "i = j \<or> (Suc j \<le> i \<and> i < k)" by auto
      then show "(1024 :: rat) < of_int b / 1024 ^ i" using True k(5) by auto
    qed
    with k step show ?thesis by (intro exI [of _ k]) auto
  qed
qed

lemma format_loop_int:
  assumes b: "\<bar>b\<bar> < 2 ^ 53"
  shows "\<exists>k sz. k \<le> 4
      \<and> format_loop (NInt b) 0 = Inr (sz, k)
      \<and> format_2f sz = Inr (two_places (of_int b / 1024 ^ k))
      \<and> (of_int b / 1024 ^ k \<le> (1024 :: rat) \<or> k = 4)
      \<and> (\<forall>i < k. (1024 :: rat) < of_int b / 1024 ^ i)"
proof (cases "1024 < b")
  case False
  have "format_loop (NInt b) 0 = Inr (NInt b, 0)"
    using False by (subst format_loop.simps) (simp add: power_c_def)
  moreover have "format_2f (NInt b) = Inr (two_places (of_int b))"
    using float_of_int_exact [OF b] by simp
  moreover have "(of_int b :: rat) \<le> 1024" using False by (simp add: of_int_le_numeral_iff [symmetric] del: of_int_le_numeral_iff) 
  ultimately show ?thesis by (intro exI [of _ 0] exI [of _ "NInt b"]) simp
next
  case True
  then have gt: "(1024 :: rat) < of_int b" by (metis of_int_less_iff of_int_numeral)
  have step: "format_loop (NInt b) 0 = format_loop (NFloat (Finite (of_int b / 1024 ^ 1))) 1"
    using True int_truediv_1024 [OF b]
    by (subst format_loop.simps) (simp add: power_c_def units_def)
  from format_loop_float [OF b, of 1] obtain k where k: "1 \<le> k" "k \<le> 4"
      "format_loop (NFloat (Finite (of_int b / 1024 ^ 1))) 1 =
            Inr (NFloat (Finite (of_int b / 1024 ^ k)), k)"
      "of_int b / 1024 ^ k \<le> (1024 :: rat) \<or> k = 4"
      "\<forall>i. 1 \<le> i \<and> i < k \<longrightarrow> (1024 :: rat) < of_int b / 1024 ^ i"
    by auto
  have "\<forall>i < k. (1024 :: rat) < of_int b / 1024 ^ i"
  proof (intro allI impI)
    fix i assume "i < k"
    then have "i = 0 \<or> (1 \<le> i \<and> i < k)" by auto
    then show "(1024 :: rat) < of_int b / 1024 ^ i" using gt k(5) by auto
  qed
  with k step show ?thesis
    by (intro exI [of _ k] exI [of _ "NFloat (Finite (of_int b / 1024 ^ k))"]) simp
qed

text \<open>
  Claim C4, as the code has it. For every byte count \<open>0 \<le> b < 2\<^sup>5\<^sup>3\<close> (where the
  divisions by 1024 are exact in binary64), \<open>format_bytes b\<close> is the value
  \<open>b / 1024\<^sup>k\<close> formatted to two decimal places, followed by the unit label at
  position \<open>k\<close> of the ladder, for the smallest \<open>k\<close> such that the scaled value is
  at most 1024, or \<open>k = 4\<close> when no unit below TB achieves that.
\<close>

theorem format_bytes_smallest_unit:
  assumes "0 \<le> b" and "b < 2 ^ 53"
  shows "\<exists>k \<le> 4.
      format_bytes b = Inr (two_places (of_int b / 1024 ^ k) @ '' '' @ units ! k)
      \<and> (of_int b / 1024 ^ k \<le> (1024 :: rat) \<or> k = 4)
      \<and> (\<forall>i < k. (1024 :: rat) < of_int b / 1024 ^ i)"
proof -
  from assms have "\<bar>b\<bar> < 2 ^ 53" by simp
  from format_loop_int [OF this] obtain k sz where k: "k \<le> 4"
      "format_loop (NInt b) 0 = Inr (sz, k)"
      "format_2f sz = Inr (two_places (of_int b / 1024 ^ k))"
      "of_int b / 1024 ^ k \<le> (1024 :: rat) \<or> k = 4"
      "\<forall>i < k. (1024 :: rat) < of_int b / 1024 ^ i"
    by blast
  have "list_index units k = Inr (units ! k)"
    using k(1) by (simp add: list_index_def units_def)
  with k have "format_bytes b = Inr (two_places (of_int b / 1024 ^ k) @ '' '' @ units ! k)"
    by (simp add: format_bytes_def)
  with k show ?thesis by blast
qed

theorem format_bytes_smallest_unit_witness:
  "format_bytes 2464154 = Inr ''2.35 MB''"
proof -
  from format_bytes_smallest_unit [of 2464154] obtain k where k: "k \<le> 4"
    "format_bytes 2464154 = Inr (two_places (of_int 2464154 / 1024 ^ k) @ '' '' @ units ! k)"
    "of_int 2464154 / 1024 ^ k \<le> (1024 :: rat) \<or> k = 4"
    "\<forall>i < k. (1024 :: rat) < of_int 2464154 / 1024 ^ i"
    by auto
  have "k \<noteq> 0"
  proof
    assume "k = 0" with k(3) show False by simp
  qed
  moreover have "k \<noteq> 1"
  proof
    assume "k = 1" with k(3) show False by simp
  qed
  moreover have "\<not> 2 < k"
  proof
    assume "2 < k" with k(4) have "(1024 :: rat) < of_int 2464154 / 1024 ^ 2" by blast
    then show False by simp
  qed
  ultimately have "k = 2" by linarith
  with k(2) show ?thesis
    by (simp add: two_places_def units_def show_nat.simps digit_char_def fl_eval)
qed

text \<open>
  Claim C4 as stated fails: for 5 bytes the largest index whose scaled value is at most
  1024 is 4, which would give \<open>0.00 TB\<close>; the loop stops at the smallest and
  returns \<open>5.00 Bytes\<close>.
\<close>

theorem format_bytes_largest_unit_counterexample:
  "format_bytes 5 = Inr ''5.00 Bytes''
   \<and> largest_unit_index 5 = 4
   \<and> two_places (of_int 5 / 1024 ^ largest_unit_index 5) @ '' '' @ units ! largest_unit_index 5
       = ''0.00 TB''
   \<and> format_bytes 5 \<noteq>
       Inr (two_places (of_int 5 / 1024 ^ largest_unit_index 5) @ '' ''
              @ units ! largest_unit_index 5)"
  by (simp add: largest_unit_index_def fb_eval fl_eval)
lemma round_b64_bounded:
  assumes "\<bar>x\<bar> \<le> 2 ^ m" and "m \<le> 1022"
  shows "\<bar>round_b64 x - x\<bar> \<le> 2 ^ m / 2 ^ 53" and "\<bar>round_b64 x\<bar> < b64_max_bound"
proof -
  show e: "\<bar>round_b64 x - x\<bar> \<le> 2 ^ m / 2 ^ 53" using assms(1) by (rule round_b64_err)
  have "(2 :: rat) ^ m / 2 ^ 53 \<le> 2 ^ m" by (simp add: field_simps)
  with e assms(1) have "\<bar>round_b64 x\<bar> \<le> 2 * 2 ^ m" by linarith
  also have "\<dots> = 2 ^ Suc m" by simp
  also have "\<dots> \<le> 2 ^ 1023" using assms(2) by (intro power_increasing) simp_all
  also have "\<dots> < (2 :: rat) ^ 1024" by simp
  finally show "\<bar>round_b64 x\<bar> < b64_max_bound" by (simp only: b64_max_bound_def)
qed

lemma checked_bounded:
  assumes "\<bar>x\<bar> \<le> 2 ^ m" and "m \<le> 1022"
  shows "checked x = Inr (Finite (round_b64 x))"
  using round_b64_bounded(2) [OF assms] by (simp add: checked_def)

lemma ieee_bounded:
  assumes "\<bar>x\<bar> \<le> 2 ^ m" and "m \<le> 1022"
  shows "ieee x = Finite (round_b64 x)"
  using round_b64_bounded(2) [OF assms] by (simp add: ieee_def abs_less_iff)

lemma checked_overflow:
  assumes "2 ^ 1024 \<le> x"
  shows "checked x = Inl OverflowError"
proof -
  have "2 ^ 1024 \<le> round_b64 x" using assms by (rule round_b64_overflow)
  then have "b64_max_bound \<le> \<bar>round_b64 x\<bar>" by (simp add: b64_max_bound_def)
  then show ?thesis by (simp add: checked_def)
qed

lemma float_div_int_1024_returns: "\<exists>y. float_div_int x 1024 = Inr y"
proof -
  have f: "float_of_int 1024 = Inr (Finite 1024)"
    using float_of_int_exact [of 1024] by simp
  show ?thesis by (simp add: float_div_int_def f)
qed

lemma format_loop_float_returns:
  "n \<le> 4 \<Longrightarrow> \<exists>y k. format_loop (NFloat x) n = Inr (NFloat y, k) \<and> k \<le> 4"
proof (induction "4 - n" arbitrary: n x)
  case 0
  then have "format_loop (NFloat x) n = Inr (NFloat x, n)"
    by (subst format_loop.simps) (simp add: units_def)
  with 0 show ?case by auto
next
  case (Suc d)
  show ?case
  proof (cases "num_gt (NFloat x) power_c \<and> n < length units - 1")
    case False
    have "format_loop (NFloat x) n = Inr (NFloat x, n)"
      by (subst format_loop.simps) (use False in auto)
    with Suc.prems show ?thesis by auto
  next
    case True
    obtain y where y: "float_div_int x 1024 = Inr y"
      using float_div_int_1024_returns by blast
    have "format_loop (NFloat x) n = format_loop (NFloat y) (Suc n)"
      using True y by (subst format_loop.simps) (simp add: power_c_def)
    moreover from Suc have "d = 4 - Suc n" "Suc n \<le> 4" by simp_all
    from Suc.hyps(1) [OF this]
    have "\<exists>y' k. format_loop (NFloat y) (Suc n) = Inr (NFloat y', k) \<and> k \<le> 4" .
    ultimately show ?thesis by simp
  qed
qed

lemma format_bytes_returns:
  assumes "\<bar>b\<bar> \<le> 2 ^ 1000"
  shows "\<exists>s. format_bytes b = Inr s"
proof -
  have bb: "\<bar>of_int b :: rat\<bar> \<le> 2 ^ 1000"
    using assms by (metis of_int_abs of_int_le_iff of_int_numeral of_int_power)
  show ?thesis
  proof (cases "1024 < b")
    case False
    have l: "format_loop (NInt b) 0 = Inr (NInt b, 0)"
      using False by (subst format_loop.simps) (simp add: power_c_def)
    have "float_of_int b = Inr (Finite (round_b64 (of_int b)))"
      unfolding float_of_int_def using bb by (rule checked_bounded) simp
    then show ?thesis by (simp add: format_bytes_def l list_index_def units_def)
  next
    case True
    have "\<bar>of_int b / of_int 1024 :: rat\<bar> \<le> 2 ^ 1000" using bb by simp
    then have "checked (of_int b / of_int 1024) = Inr (Finite (round_b64 (of_int b / of_int 1024)))"
      by (rule checked_bounded) simp
    then have "format_loop (NInt b) 0 =
                 format_loop (NFloat (Finite (round_b64 (of_int b / of_int 1024)))) (Suc 0)"
      using True by (subst format_loop.simps) (simp add: power_c_def units_def int_truediv_def)
    moreover obtain y k where
      "format_loop (NFloat (Finite (round_b64 (of_int b / of_int 1024)))) (Suc 0) =
         Inr (NFloat y, k)" "k \<le> 4"
      using format_loop_float_returns
        [where n = "Suc 0" and x = "Finite (round_b64 (of_int b / of_int 1024))"]
      by auto
    ultimately show ?thesis by (simp add: format_bytes_def list_index_def units_def)
  qed
qed

lemma two_places_of_int:
  assumes "b \<le> 0"
  shows "two_places (of_int b) = show_int b @ ''.00''"
proof -
  define c where "c = nat (- b)"
  have "\<bar>of_int b :: rat\<bar> * 100 = of_int (- b * 100)" using assms by simp
  then have "round_half_even (\<bar>of_int b :: rat\<bar> * 100) = - b * 100"
    by (simp only: round_half_even_of_int)
  moreover have "nat (- b * 100) = c * 100"
    using assms by (simp add: nat_mult_distrib c_def)
  ultimately have k: "nat (round_half_even (\<bar>of_int b :: rat\<bar> * 100)) = c * 100" by simp
  have "two_places (of_int b) =
          (if (of_int b :: rat) < 0 then ''-'' else []) @ show_nat (c * 100 div 100) @ ''.''
            @ [digit_char (c * 100 mod 100 div 10), digit_char (c * 100 mod 10)]"
    by (simp only: two_places_def Let_def k)
  moreover have "c * 100 mod 10 = 0" by presburger
  moreover have "b < 0 \<or> b = 0" using assms by linarith
  ultimately show ?thesis
    by (auto simp: show_int_def digit_char_def c_def)
qed

text \<open>
  Claim C8, as the code has it. For every integer byte count \<open>b \<le> 0\<close> the loop
  performs no division. For \<open>-2\<^sup>5\<^sup>3 < b \<le> 0\<close> the result is the decimal rendering
  of \<open>b\<close> followed by \<open>.00 Bytes\<close>. For every integer of magnitude at most
  \<open>2\<^sup>1\<^sup>0\<^sup>0\<^sup>0\<close> the function returns a string.
\<close>

theorem format_bytes_nonpositive:
  "(b \<le> 0 \<longrightarrow> format_loop (NInt b) 0 = Inr (NInt b, 0))
   \<and> (- (2 ^ 53) < b \<and> b \<le> 0 \<longrightarrow> format_bytes b = Inr (show_int b @ ''.00 Bytes''))
   \<and> (\<bar>b\<bar> \<le> 2 ^ 1000 \<longrightarrow> (\<exists>s. format_bytes b = Inr s))"
proof (intro conjI impI)
  assume "b \<le> 0"
  then show "format_loop (NInt b) 0 = Inr (NInt b, 0)"
    by (subst format_loop.simps) (simp add: power_c_def)
next
  assume b: "- (2 ^ 53) < b \<and> b \<le> 0"
  then have l: "format_loop (NInt b) 0 = Inr (NInt b, 0)"
    by (subst format_loop.simps) (simp add: power_c_def)
  from b have "\<bar>b\<bar> < 2 ^ 53" by simp
  then have "float_of_int b = Inr (Finite (of_int b))" by (rule float_of_int_exact)
  then show "format_bytes b = Inr (show_int b @ ''.00 Bytes'')"
    using b by (simp add: format_bytes_def l list_index_def units_def two_places_of_int)
next
  assume "\<bar>b\<bar> \<le> 2 ^ 1000"
  then show "\<exists>s. format_bytes b = Inr s" by (rule format_bytes_returns)
qed

theorem format_bytes_nonpositive_witness:
  "format_bytes (- 5) = Inr ''-5.00 Bytes'' \<and> format_bytes 0 = Inr ''0.00 Bytes''"
  using format_bytes_nonpositive [of "- 5"] format_bytes_nonpositive [of 0]
  by (simp add: show_int_def show_nat.simps digit_char_def)

text \<open>
  Claim C8 as stated fails. The negative count \<open>-(2\<^sup>5\<^sup>3 + 1)\<close> is converted to a
  float for formatting and comes out as \<open>-9007199254740992.00\<close>, which is not its
  value; and for the integer \<open>2\<^sup>1\<^sup>0\<^sup>3\<^sup>4\<close> the first division raises OverflowError,
  so the function does not return a string for every numeric input.
\<close>

theorem format_bytes_large_counterexample:
  "format_bytes (- 9007199254740993) = Inr ''-9007199254740992.00 Bytes''
   \<and> format_bytes (2 ^ 1034) = Inl OverflowError"
proof
  show "format_bytes (- 9007199254740993) = Inr ''-9007199254740992.00 Bytes''"
    by (simp add: fb_eval fl_eval)
  have "(of_int (2 ^ 1034) :: rat) / of_int 1024 = 2 ^ 1024" by simp
  then have "int_truediv (2 ^ 1034) 1024 = Inl OverflowError"
    using checked_overflow [of "2 ^ 1024"] by (simp add: int_truediv_def)
  then have "format_loop (NInt (2 ^ 1034)) 0 = Inl OverflowError"
    by (subst format_loop.simps) (simp add: power_c_def units_def)
  then show "format_bytes (2 ^ 1034) = Inl OverflowError"
    by (simp add: format_bytes_def)
qed

subsection \<open>Accuracy of the GPS coordinate converter\<close>

lemma fl_step:
  fixes P :: rat
  assumes P: "P = 2 ^ n" and n: "n \<le> 1000" and x: "- (4 * P) \<le> x" "x \<le> 4 * P"
  shows "ieee x = Finite (round_b64 x)"
    and "checked x = Inr (Finite (round_b64 x))"
    and "x - P / 2 ^ 51 \<le> round_b64 x"
    and "round_b64 x \<le> x + P / 2 ^ 51"
proof -
  have b: "\<bar>x\<bar> \<le> 2 ^ (n + 2)" using x by (simp add: P abs_le_iff)
  have m: "n + 2 \<le> 1022" using n by simp
  show "ieee x = Finite (round_b64 x)" using b m by (rule ieee_bounded)
  show "checked x = Inr (Finite (round_b64 x))" using b m by (rule checked_bounded)
  have "\<bar>round_b64 x - x\<bar> \<le> 2 ^ (n + 2) / 2 ^ 53" using b by (rule round_b64_err)
  also have "(2 :: rat) ^ (n + 2) / 2 ^ 53 = P / 2 ^ 51" by (simp add: P)
  finally have "\<bar>round_b64 x - x\<bar> \<le> P / 2 ^ 51" .
  then have "x - P / 2 ^ 51 \<le> round_b64 x \<and> round_b64 x \<le> x + P / 2 ^ 51"
    by (simp only: abs_diff_le_iff)
  then show "x - P / 2 ^ 51 \<le> round_b64 x" and "round_b64 x \<le> x + P / 2 ^ 51"
    by blast+
qed

lemma quotient_bound:
  fixes a b :: int
  assumes "b \<noteq> 0" and "\<bar>a\<bar> \<le> 2 ^ n * \<bar>b\<bar>"
  shows "- (2 ^ n) \<le> (of_int a / of_int b :: rat)" and "(of_int a / of_int b :: rat) \<le> 2 ^ n"
proof -
  have "(of_int \<bar>a\<bar> :: rat) \<le> of_int (2 ^ n * \<bar>b\<bar>)" using assms(2) by (simp only: of_int_le_iff)
  then have "\<bar>of_int a :: rat\<bar> \<le> 2 ^ n * \<bar>of_int b\<bar>" by simp
  moreover have "0 < \<bar>of_int b :: rat\<bar>" using assms(1) by simp
  ultimately have "\<bar>of_int a / of_int b :: rat\<bar> \<le> 2 ^ n"
    by (simp add: abs_divide pos_divide_le_eq)
  then have "(of_int a / of_int b :: rat) \<le> 2 ^ n \<and> - (of_int a / of_int b :: rat) \<le> 2 ^ n"
    by (simp only: abs_le_iff)
  then show "- (2 ^ n) \<le> (of_int a / of_int b :: rat)" and "(of_int a / of_int b :: rat) \<le> 2 ^ n"
    by linarith+
qed

lemma float_div_int_const:
  assumes "0 < c" and "c < 2 ^ 53"
  shows "float_div_int (Finite x) c = Inr (ieee (x / of_int c))"
proof -
  from assms have "\<bar>c\<bar> < 2 ^ 53" by simp
  then have "float_of_int c = Inr (Finite (of_int c))" by (rule float_of_int_exact)
  then show ?thesis using assms(1) by (simp add: float_div_int_def)
qed

lemma decimal_round_err:
  fixes v :: rat
  defines "w \<equiv> of_int (round_half_even (v * 10 ^ 8)) / 10 ^ 8"
  shows "v - 1 / 200000000 \<le> w" and "w \<le> v + 1 / 200000000"
proof -
  define k :: rat where "k = of_int (round_half_even (v * 10 ^ 8))"
  have "\<bar>k - v * 10 ^ 8\<bar> \<le> 1 / 2"
    unfolding k_def by (rule round_half_even_err)
  then have "v * 10 ^ 8 - 1 / 2 \<le> k \<and> k \<le> v * 10 ^ 8 + 1 / 2"
    by (simp only: abs_diff_le_iff)
  then have "v * 100000000 - 1 / 2 \<le> k" and "k \<le> v * 100000000 + 1 / 2"
    by simp_all
  moreover have "w = k / 100000000" by (simp add: w_def k_def)
  ultimately show "v - 1 / 200000000 \<le> w" and "w \<le> v + 1 / 200000000"
    by linarith+
qed

lemma dms_body_accuracy:
  fixes a b c d e f :: int and n :: nat
  assumes nz: "b \<noteq> 0" "d \<noteq> 0" "f \<noteq> 0"
    and bd: "\<bar>a\<bar> \<le> 2 ^ n * \<bar>b\<bar>" "\<bar>c\<bar> \<le> 2 ^ n * \<bar>d\<bar>" "\<bar>e\<bar> \<le> 2 ^ n * \<bar>f\<bar>"
    and n: "n \<le> 1000"
  shows "\<exists>r k. dms_body (dms_triple a b c d e f) ref = Inr (Finite r)
           \<and> r = round_b64 (of_int k / 10 ^ 8)
           \<and> \<bar>r - (if ref \<in> {''S'', ''W''} then - 1 else 1) * dms_exact a b c d e f\<bar>
                \<le> 1 / (2 * 10 ^ 8) + 2 ^ n / 2 ^ 48"
proof -
  define P :: rat where "P = 2 ^ n"
  have P1: "1 \<le> P" by (simp add: P_def)
  note step = fl_step [OF P_def n]
  define D :: rat where "D = of_int a / of_int b"
  define M :: rat where "M = of_int c / of_int d"
  define S :: rat where "S = of_int e / of_int f"
  have D: "- P \<le> D" "D \<le> P" using quotient_bound [OF nz(1) bd(1)] by (simp_all add: D_def P_def)
  have M: "- P \<le> M" "M \<le> P" using quotient_bound [OF nz(2) bd(2)] by (simp_all add: M_def P_def)
  have S: "- P \<le> S" "S \<le> P" using quotient_bound [OF nz(3) bd(3)] by (simp_all add: S_def P_def)
  define u where "u = P / 2 ^ 51"
  have u: "0 \<le> u" "u \<le> P / 1000" using P1 by (simp_all add: u_def)
  define d' where "d' = round_b64 D"
  define m' where "m' = round_b64 M"
  define s' where "s' = round_b64 S"
  have cD: "checked D = Inr (Finite d')" and eD: "D - u \<le> d'" "d' \<le> D + u"
    using step [of D] D P1 by (simp_all add: d'_def u_def)
  have cM: "checked M = Inr (Finite m')" and eM: "M - u \<le> m'" "m' \<le> M + u"
    using step [of M] M P1 by (simp_all add: m'_def u_def)
  have cS: "checked S = Inr (Finite s')" and eS: "S - u \<le> s'" "s' \<le> S + u"
    using step [of S] S P1 by (simp_all add: s'_def u_def)
  define m60 where "m60 = round_b64 (m' / 60)"
  define s36 where "s36 = round_b64 (s' / 3600)"
  have bm: "- (4 * P) \<le> m' / 60" "m' / 60 \<le> 4 * P" using eM M u P1 by linarith+
  have iM: "ieee (m' / 60) = Finite m60" and eM60: "m' / 60 - u \<le> m60" "m60 \<le> m' / 60 + u"
    using step [OF bm] by (simp_all add: m60_def u_def)
  have bs: "- (4 * P) \<le> s' / 3600" "s' / 3600 \<le> 4 * P" using eS S u P1 by linarith+
  have iS: "ieee (s' / 3600) = Finite s36" and eS36: "s' / 3600 - u \<le> s36" "s36 \<le> s' / 3600 + u"
    using step [OF bs] by (simp_all add: s36_def u_def)
  define t1 where "t1 = round_b64 (d' + m60)"
  have b1: "- (4 * P) \<le> d' + m60" "d' + m60 \<le> 4 * P"
    using eD D eM60 eM M u P1 by linarith+
  have i1: "ieee (d' + m60) = Finite t1" and e1: "d' + m60 - u \<le> t1" "t1 \<le> d' + m60 + u"
    using step [OF b1] by (simp_all add: t1_def u_def)
  define t2 where "t2 = round_b64 (t1 + s36)"
  have b2: "- (4 * P) \<le> t1 + s36" "t1 + s36 \<le> 4 * P"
    using e1 eD D eM60 eM M eS36 eS S u P1 by linarith+
  have i2: "ieee (t1 + s36) = Finite t2" and e2: "t1 + s36 - u \<le> t2" "t2 \<le> t1 + s36 + u"
    using step [OF b2] by (simp_all add: t2_def u_def)
  define E where "E = D + M / 60 + S / 3600"
  have E: "E - 6 * u \<le> t2" "t2 \<le> E + 6 * u"
    using e2 e1 eD eM60 eM eS36 eS u unfolding E_def by linarith+
  have Eb: "- (2 * P) \<le> E" "E \<le> 2 * P" using D M S P1 unfolding E_def by linarith+
  define sg :: rat where "sg = (if ref \<in> {''S'', ''W''} then - 1 else 1)"
  define v where "v = sg * t2"
  have v: "sg * E - 6 * u \<le> v" "v \<le> sg * E + 6 * u"
    using E by (auto simp: v_def sg_def)
  have sEb: "- (2 * P) \<le> sg * E" "sg * E \<le> 2 * P" using Eb by (auto simp: sg_def)
  define k where "k = round_half_even (v * 10 ^ 8)"
  define w :: rat where "w = of_int k / 10 ^ 8"
  have ek: "v - 1 / 200000000 \<le> w" "w \<le> v + 1 / 200000000"
    unfolding w_def k_def by (rule decimal_round_err)+
  have bk: "- (4 * P) \<le> w" "w \<le> 4 * P"
    using ek v sEb u P1 by linarith+
  define r where "r = round_b64 w"
  have cr: "checked w = Inr (Finite r)"
    and er: "w - u \<le> r" "r \<le> w + u"
    using step [OF bk] by (simp_all add: r_def u_def)
  have c0: "dms_component (dms_triple a b c d e f) 0 = Inr (Finite d')"
    using nz cD by (simp add: dms_component_def dms_triple_def int_truediv_def D_def)
  have c1: "dms_component (dms_triple a b c d e f) 1 = Inr (Finite m')"
    using nz cM by (simp add: dms_component_def dms_triple_def int_truediv_def M_def)
  have c2: "dms_component (dms_triple a b c d e f) 2 = Inr (Finite s')"
    using nz cS by (simp add: dms_component_def dms_triple_def int_truediv_def S_def)
  have f60: "float_div_int (Finite m') 60 = Inr (Finite m60)"
    using float_div_int_const [of 60 m'] iM by simp
  have f36: "float_div_int (Finite s') 3600 = Inr (Finite s36)"
    using float_div_int_const [of 3600 s'] iS by simp
  have neg: "(if ref \<in> set [''S'', ''W''] then float_neg (Finite t2) else Finite t2) = Finite v"
    by (simp add: v_def sg_def)
  have pr: "py_round (Finite v) 8 = Inr (Finite r)"
    by (simp only: py_round.simps k_def [symmetric] w_def [symmetric] cr)
  have body: "dms_body (dms_triple a b c d e f) ref = Inr (Finite r)"
    unfolding dms_body_def c0 c1 c2
    by (simp only: bind_err.simps f60 f36 float_add.simps i1 i2 Let_def neg pr)
  have "sg * E - (1 / 200000000 + 8 * u) \<le> r \<and> r \<le> sg * E + (1 / 200000000 + 8 * u)"
    using er ek v u by linarith
  then have "\<bar>r - sg * E\<bar> \<le> 1 / 200000000 + 8 * u" by (simp only: abs_diff_le_iff)
  moreover have "8 * u = 2 ^ n / 2 ^ 48" by (simp add: u_def P_def)
  moreover have "E = dms_exact a b c d e f" by (simp add: E_def D_def M_def S_def dms_exact_def)
  moreover have "(1 :: rat) / 200000000 = 1 / (2 * 10 ^ 8)" by simp
  ultimately have "\<bar>r - sg * dms_exact a b c d e f\<bar> \<le> 1 / (2 * 10 ^ 8) + 2 ^ n / 2 ^ 48"
    by (simp only:)
  with body show ?thesis unfolding sg_def r_def w_def by blast
qed
lemma checked_minus: "checked (- x) = map_sum id float_neg (checked x)"
  by (simp add: checked_def round_b64_minus Let_def)

lemma py_round_neg: "py_round (float_neg x) nd = map_sum id float_neg (py_round x nd)"
proof (cases x)
  case (Finite a)
  have "of_int (round_half_even (- a * 10 ^ nd)) / 10 ^ nd
          = - (of_int (round_half_even (a * 10 ^ nd)) / 10 ^ nd :: rat)"
    using round_half_even_minus [of "a * 10 ^ nd"] by simp
  then show ?thesis using Finite by (simp add: checked_minus)
qed simp_all

lemma dms_body_reference:
  "dms_body dms ref =
     (if ref \<in> {''S'', ''W''} then map_sum id float_neg (dms_body dms ''N'')
      else dms_body dms ''N'')"
proof -
  have "dms_body dms ref =
     (if ref \<in> {''S'', ''W''} then map_sum id float_neg (dms_body dms ''N'')
      else dms_body dms ''N'')"
    if "dms_component dms 0 = c0" "dms_component dms 1 = c1" "dms_component dms 2 = c2"
    for c0 c1 c2
  proof (cases c0)
    case (Inl e)
    with that show ?thesis by (simp add: dms_body_def)
  next
    case d: (Inr degrees)
    show ?thesis
    proof (cases c1)
      case (Inl e)
      with that d show ?thesis by (simp add: dms_body_def)
    next
      case m: (Inr minutes)
      show ?thesis
      proof (cases c2)
        case (Inl e)
        with that d m show ?thesis by (simp add: dms_body_def)
      next
        case s: (Inr seconds)
        show ?thesis
        proof (cases "float_div_int minutes 60")
          case (Inl e)
          with that d m s show ?thesis by (simp add: dms_body_def)
        next
          case m60: (Inr m60)
          show ?thesis
          proof (cases "float_div_int seconds 3600")
            case (Inl e)
            with that d m s m60 show ?thesis by (simp add: dms_body_def)
          next
            case (Inr s3600)
            with that d m s m60 show ?thesis
              by (simp add: dms_body_def Let_def py_round_neg)
          qed
        qed
      qed
    qed
  qed
  then show ?thesis by blast
qed

lemma get_decimal_from_dms_accuracy:
  fixes a b c d e f :: int and n :: nat
  assumes "b \<noteq> 0" "d \<noteq> 0" "f \<noteq> 0"
    and "\<bar>a\<bar> \<le> 2 ^ n * \<bar>b\<bar>" "\<bar>c\<bar> \<le> 2 ^ n * \<bar>d\<bar>" "\<bar>e\<bar> \<le> 2 ^ n * \<bar>f\<bar>"
    and "n \<le> 1000"
  shows "\<exists>r k. get_decimal_from_dms (dms_triple a b c d e f) ref = (Some (Finite r), [])
           \<and> r = round_b64 (of_int k / 10 ^ 8)
           \<and> \<bar>r - (if ref \<in> {''S'', ''W''} then - 1 else 1) * dms_exact a b c d e f\<bar>
                \<le> 1 / (2 * 10 ^ 8) + 2 ^ n / 2 ^ 48"
proof -
  from dms_body_accuracy [OF assms, of ref] obtain r k where
    "dms_body (dms_triple a b c d e f) ref = Inr (Finite r)"
    "r = round_b64 (of_int k / 10 ^ 8)"
    "\<bar>r - (if ref \<in> {''S'', ''W''} then - 1 else 1) * dms_exact a b c d e f\<bar>
                \<le> 1 / (2 * 10 ^ 8) + 2 ^ n / 2 ^ 48"
    by blast
  then show ?thesis by (intro exI [of _ r] exI [of _ k]) (simp add: get_decimal_from_dms_def)
qed

text \<open>
  Claim C1, as the code has it. For every DMS triple of integer pairs with nonzero
  denominators whose three components are at most \<open>2\<^sup>2\<^sup>0\<close> in magnitude, and every
  reference, \<open>get_decimal_from_dms\<close> returns a float, without a warning: the float
  nearest to a decimal with 8 places, within \<open>10\<^sup>-\<^sup>8\<close> of
  degrees + minutes/60 + seconds/3600, negated when the reference is S or W; and the
  result for S or W is exactly the negation of the result for N.
\<close>

theorem dms_decimal_within_1e8:
  fixes a b c d e f :: int
  assumes "b \<noteq> 0" "d \<noteq> 0" "f \<noteq> 0"
    and "\<bar>a\<bar> \<le> 2 ^ 20 * \<bar>b\<bar>" "\<bar>c\<bar> \<le> 2 ^ 20 * \<bar>d\<bar>" "\<bar>e\<bar> \<le> 2 ^ 20 * \<bar>f\<bar>"
  shows "\<exists>r k. get_decimal_from_dms (dms_triple a b c d e f) ref = (Some (Finite r), [])
           \<and> r = round_b64 (of_int k / 10 ^ 8)
           \<and> \<bar>r - (if ref \<in> {''S'', ''W''} then - 1 else 1) * dms_exact a b c d e f\<bar>
                \<le> 1 / 10 ^ 8
           \<and> (ref \<in> {''S'', ''W''} \<longrightarrow>
                get_decimal_from_dms (dms_triple a b c d e f) ''N'' = (Some (Finite (- r)), []))"
proof -
  from get_decimal_from_dms_accuracy [OF assms, of ref] obtain r k where r:
    "get_decimal_from_dms (dms_triple a b c d e f) ref = (Some (Finite r), [])"
    "r = round_b64 (of_int k / 10 ^ 8)"
    "\<bar>r - (if ref \<in> {''S'', ''W''} then - 1 else 1) * dms_exact a b c d e f\<bar>
                \<le> 1 / (2 * 10 ^ 8) + 2 ^ 20 / 2 ^ 48"
    by auto
  have "(1 :: rat) / (2 * 10 ^ 8) + 2 ^ 20 / 2 ^ 48 \<le> 1 / 10 ^ 8" by simp
  with r(3) have bound:
    "\<bar>r - (if ref \<in> {''S'', ''W''} then - 1 else 1) * dms_exact a b c d e f\<bar> \<le> 1 / 10 ^ 8"
    by (rule order_trans)
  have "get_decimal_from_dms (dms_triple a b c d e f) ''N'' = (Some (Finite (- r)), [])"
    if sw: "ref \<in> {''S'', ''W''}"
  proof -
    from r(1) have "dms_body (dms_triple a b c d e f) ref = Inr (Finite r)"
      by (cases "dms_body (dms_triple a b c d e f) ref") (simp_all add: get_decimal_from_dms_def)
    with sw have "map_sum id float_neg (dms_body (dms_triple a b c d e f) ''N'') = Inr (Finite r)"
      using dms_body_reference [of "dms_triple a b c d e f" ref] by simp
    then obtain x where x: "dms_body (dms_triple a b c d e f) ''N'' = Inr x" "float_neg x = Finite r"
      by (cases "dms_body (dms_triple a b c d e f) ''N''") auto
    from x(2) have "x = Finite (- r)" by (cases x) auto
    with x(1) show ?thesis by (simp add: get_decimal_from_dms_def)
  qed
  with r(1,2) bound show ?thesis by blast
qed

theorem dms_decimal_within_1e8_witness:
  "get_decimal_from_dms (dms_triple 79 1 58 1 0 1) ''W'' =
     (Some (Finite (- (175848559676305 / 2199023255552))), [])
   \<and> \<bar>- (175848559676305 / 2199023255552) - (- 1) * dms_exact 79 1 58 1 0 1\<bar> \<le> 1 / 10 ^ 8
   \<and> get_decimal_from_dms (dms_triple 79 1 58 1 0 1) ''N'' =
     (Some (Finite (175848559676305 / 2199023255552)), [])"
  using dms_decimal_within_1e8 [of 1 1 1 79 58 0 "''W''"]
  by (simp add: dms_triple_def dms_exact_def dms_eval fl_eval)

text \<open>
  Claim C1 as stated fails: the arithmetic is binary64. For the degrees
  \<open>4294967295/1\<close> and the minutes \<open>1/3\<close>, both within the range of an EXIF
  rational, the sum is rounded to a multiple of \<open>2\<^sup>-\<^sup>2\<^sup>1\<close>, and the result differs
  from the exact sum by more than \<open>10\<^sup>-\<^sup>8\<close>.
\<close>

theorem dms_decimal_precision_counterexample:
  "get_decimal_from_dms (dms_triple 4294967295 1 1 3 0 1) ''N'' =
     (Some (Finite (9007199252655491 / 2097152)), [])
   \<and> 1 / 10 ^ 8 < \<bar>9007199252655491 / 2097152 - dms_exact 4294967295 1 1 3 0 1\<bar>"
  by (simp add: dms_triple_def dms_exact_def dms_eval fl_eval)

text \<open>
  Claim C10, as the code has it. The reference is never validated: for every input and
  every reference other than S and W the result is the one for N. For every DMS triple
  of integer pairs with nonzero denominators whose components are at most \<open>2\<^sup>n\<close> in
  magnitude, \<open>n \<le> 1000\<close>, the result for such a reference is a float, the nearest
  to a decimal with 8 places, and it is the non-negated value
  degrees + minutes/60 + seconds/3600 up to \<open>5\<cdot>10\<^sup>-\<^sup>9 + 2\<^sup>n\<^sup>-\<^sup>4\<^sup>8\<close>.
\<close>

theorem unvalidated_reference_not_negated:
  fixes a b c d e f :: int and n :: nat
  shows "(ref \<notin> {''S'', ''W''} \<longrightarrow> get_decimal_from_dms dms ref = get_decimal_from_dms dms ''N'')
   \<and> (ref \<notin> {''S'', ''W''} \<and> b \<noteq> 0 \<and> d \<noteq> 0 \<and> f \<noteq> 0 \<and> n \<le> 1000
        \<and> \<bar>a\<bar> \<le> 2 ^ n * \<bar>b\<bar> \<and> \<bar>c\<bar> \<le> 2 ^ n * \<bar>d\<bar> \<and> \<bar>e\<bar> \<le> 2 ^ n * \<bar>f\<bar> \<longrightarrow>
        (\<exists>r k. get_decimal_from_dms (dms_triple a b c d e f) ref = (Some (Finite r), [])
           \<and> r = round_b64 (of_int k / 10 ^ 8)
           \<and> \<bar>r - dms_exact a b c d e f\<bar> \<le> 1 / (2 * 10 ^ 8) + 2 ^ n / 2 ^ 48))"
proof (intro conjI impI)
  assume "ref \<notin> {''S'', ''W''}"
  then show "get_decimal_from_dms dms ref = get_decimal_from_dms dms ''N''"
    using dms_body_reference [of dms ref] by (simp add: get_decimal_from_dms_def)
next
  assume h: "ref \<notin> {''S'', ''W''} \<and> b \<noteq> 0 \<and> d \<noteq> 0 \<and> f \<noteq> 0 \<and> n \<le> 1000
        \<and> \<bar>a\<bar> \<le> 2 ^ n * \<bar>b\<bar> \<and> \<bar>c\<bar> \<le> 2 ^ n * \<bar>d\<bar> \<and> \<bar>e\<bar> \<le> 2 ^ n * \<bar>f\<bar>"
  then have "\<exists>r k. get_decimal_from_dms (dms_triple a b c d e f) ref = (Some (Finite r), [])
           \<and> r = round_b64 (of_int k / 10 ^ 8)
           \<and> \<bar>r - (if ref \<in> {''S'', ''W''} then - 1 else 1) * dms_exact a b c d e f\<bar>
                \<le> 1 / (2 * 10 ^ 8) + 2 ^ n / 2 ^ 48"
    by (intro get_decimal_from_dms_accuracy) simp_all
  with h show "\<exists>r k. get_decimal_from_dms (dms_triple a b c d e f) ref = (Some (Finite r), [])
           \<and> r = round_b64 (of_int k / 10 ^ 8)
           \<and> \<bar>r - dms_exact a b c d e f\<bar> \<le> 1 / (2 * 10 ^ 8) + 2 ^ n / 2 ^ 48"
    by simp
qed

theorem unvalidated_reference_not_negated_witness:
  "get_decimal_from_dms (dms_triple 79 1 58 1 0 1) ''X'' =
     (Some (Finite (175848559676305 / 2199023255552)), [])
   \<and> get_decimal_from_dms (dms_triple 79 1 58 1 0 1) ''X'' =
       get_decimal_from_dms (dms_triple 79 1 58 1 0 1) ''N''"
  using unvalidated_reference_not_negated [of "''X''" "dms_triple 79 1 58 1 0 1" 1 1 1 7 79 58 0]
  by (simp add: dms_triple_def dms_exact_def dms_eval fl_eval)

text \<open>
  Claim C10 as stated fails: the quotient \<open>2\<^sup>1\<^sup>0\<^sup>2\<^sup>4 / 1\<close> of valid integers is too
  large for a float; the division raises OverflowError, which is caught, and the result
  is the missing value.
\<close>

theorem quotient_overflow_counterexample:
  "get_decimal_from_dms (dms_triple (2 ^ 1024) 1 0 1 0 1) ''N'' = (None, [Warning OverflowError])"
proof -
  have "(of_int (2 ^ 1024) :: rat) / of_int 1 = 2 ^ 1024" by simp
  then have "int_truediv (2 ^ 1024) 1 = Inl OverflowError"
    using checked_overflow [of "2 ^ 1024"] by (simp add: int_truediv_def)
  then have "dms_component (dms_triple (2 ^ 1024) 1 0 1 0 1) 0 = Inl OverflowError"
    by (simp add: dms_component_def dms_triple_def)
  then have "dms_body (dms_triple (2 ^ 1024) 1 0 1 0 1) ''N'' = Inl OverflowError"
    by (simp add: dms_body_def)
  then show ?thesis by (simp add: get_decimal_from_dms_def)
qed

end
